theory Spec2Isabelle
  imports Complex_Main "HOL-Library.Char_ord" "HOL-Library.List_Lexorder"
begin

section \<open>Data model\<close>

text \<open>
  The ledger of \<^verbatim>\<open>utils.ts\<close> and of the application component works on transactions
  (\<^verbatim>\<open>Invoice\<close>) and batches (\<^verbatim>\<open>InventoryBatch\<close>). Numbers are modelled as exact reals:
  every arithmetic step of the source is kept, rounding is not. The concrete inputs used
  further down keep every comparison well away from its threshold, so that a binary float
  decides it the same way.
\<close>

text \<open>
  Modelled from the spec: the declaration of the transaction kind (\<^verbatim>\<open>types.ts\<close>) is not
  among the sources; the functions compare the field against \<^verbatim>\<open>'PURCHASE'\<close> and
  \<^verbatim>\<open>'SALE'\<close>, the two kinds of the specification's data model.
\<close>

datatype invoice_type = PURCHASE | SALE

text \<open>
  The lines of a sale's consumption log. The source renders them as text through
  \<^verbatim>\<open>Intl.NumberFormat\<close>; the model keeps the kind of line and the values rendered.
\<close>

datatype log_line =
    NoTimestampWarning
  | Consumed real string real
  | StockoutWarning real

text \<open>
  Modelled from the spec: the declaration of \<^verbatim>\<open>Invoice\<close> (\<^verbatim>\<open>types.ts\<close>) is not among the
  sources; the record has the fields of the specification's transaction, under the names
  the functions read and write. The field \<^verbatim>\<open>id\<close> is called \<open>inv_id\<close> and \<^verbatim>\<open>type\<close> is
  called \<open>inv_type\<close>. The last three fields are the ones the replay attaches.
\<close>

record invoice =
  inv_id :: string
  date :: string
  createdAt :: "string option"
  inv_type :: invoice_type
  partyName :: string
  quantityGrams :: real
  ratePerGram :: real
  taxableAmount :: real
  gstAmount :: real
  totalAmount :: real
  cogs :: "real option"
  profit :: "real option"
  fifoLog :: "log_line list option"

text \<open>
  Modelled from the spec: the declaration of \<^verbatim>\<open>InventoryBatch\<close> (\<^verbatim>\<open>types.ts\<close>) is not among
  the sources; the record has the fields of the specification's batch, under the names
  the functions read and write. The fields \<^verbatim>\<open>id\<close> and \<^verbatim>\<open>date\<close> are called \<open>batch_id\<close>
  and \<open>batch_date\<close>.
\<close>

record InventoryBatch =
  batch_id :: string
  batch_date :: string
  originalQuantity :: real
  remainingQuantity :: real
  costPerGram :: real
  closedDate :: "string option"

section \<open>Ordering\<close>

text \<open>
  \<^verbatim>\<open>a.localeCompare(b)\<close> is modelled as the three-way comparison of the code-unit
  lexicographic order, with which it agrees on ISO dates, on timestamps in the one format
  that \<^verbatim>\<open>toISOString\<close> writes and on the lower-case base-36 identifiers of
  \<^verbatim>\<open>generateId\<close>. On other strings (mixed case, timestamps in differing formats) the
  host's collation can order the other way; the sample ledgers below use none.
\<close>

definition localeCompare :: "string \<Rightarrow> string \<Rightarrow> int" where
  "localeCompare a b = (if a < b then - 1 else if a = b then 0 else 1)"

text \<open>A string-valued optional field is truthy when it is present and not empty.\<close>

definition truthy :: "string option \<Rightarrow> bool" where
  "truthy s = (case s of None \<Rightarrow> False | Some t \<Rightarrow> t \<noteq> [])"

text \<open>
  The comparator written out in \<^verbatim>\<open>recalculateAllData\<close> and again in
  \<^verbatim>\<open>getInventorySnapshot\<close>: date, then creation timestamp when both sides have one,
  then identifier.
\<close>

definition compareInvoices :: "invoice \<Rightarrow> invoice \<Rightarrow> int" where
  "compareInvoices a b =
     (let dateComp = localeCompare (date a) (date b) in
      if dateComp \<noteq> 0 then dateComp
      else if truthy (createdAt a) \<and> truthy (createdAt b) \<and>
              localeCompare (the (createdAt a)) (the (createdAt b)) \<noteq> 0
           then localeCompare (the (createdAt a)) (the (createdAt b))
           else localeCompare (inv_id a) (inv_id b))"

text \<open>The comparator of the audit's chronological walk: the date alone.\<close>

definition compareDates :: "invoice \<Rightarrow> invoice \<Rightarrow> int" where
  "compareDates a b = localeCompare (date a) (date b)"

text \<open>
  \<^verbatim>\<open>Array.prototype.sort\<close> with a comparator, on a copy of the array. The language
  standard asks for a stable sort; the model is the stable insertion sort, which returns
  what every stable sort returns whenever the comparator is a consistent ordering. The
  three-tier comparator is not always one: same-day records with and without a creation
  timestamp can compare in a cycle, and the host's result then depends on its sorting
  algorithm and can differ from the model's. The general properties below do not depend
  on the order the sort produces; the sample ledgers have consistent comparators.
\<close>

fun insert_by :: "('a \<Rightarrow> 'a \<Rightarrow> int) \<Rightarrow> 'a \<Rightarrow> 'a list \<Rightarrow> 'a list" where
  "insert_by cmp x [] = [x]"
| "insert_by cmp x (y # ys) =
     (if cmp x y \<le> 0 then x # y # ys else y # insert_by cmp x ys)"

definition array_sort :: "('a \<Rightarrow> 'a \<Rightarrow> int) \<Rightarrow> 'a list \<Rightarrow> 'a list" where
  "array_sort cmp xs = foldr (insert_by cmp) xs []"

section \<open>The replay engine: \<^verbatim>\<open>recalculateAllData\<close>\<close>

text \<open>
  The state of the inner loop over the open batches: what is left to sell, the cost
  accumulated, the log written so far.
\<close>

record sale_state =
  remainingToSell :: real
  totalCOGS :: real
  consumptionLog :: "log_line list"

text \<open>
  One pass of \<^verbatim>\<open>for (const batch of currentInventory)\<close> for a sale dated \<open>d\<close>. The
  batches are objects mutated in place; the function returns the batch list after the
  pass together with the loop state. The first equation of the \<open>if\<close> is the
  \<^verbatim>\<open>break\<close>.
\<close>

fun consume_loop ::
  "string \<Rightarrow> InventoryBatch list \<Rightarrow> sale_state \<Rightarrow> InventoryBatch list \<times> sale_state" where
  "consume_loop d [] st = ([], st)"
| "consume_loop d (batch # rest) st =
     (if remainingToSell st \<le> 0 then (batch # rest, st)
      else if remainingQuantity batch > 0.0001 then
        (let take = min (remainingQuantity batch) (remainingToSell st);
             b1 = batch\<lparr>remainingQuantity := remainingQuantity batch - take\<rparr>;
             costForChunk = take * costPerGram batch;
             st1 = st\<lparr>remainingToSell := remainingToSell st - take,
                      totalCOGS := totalCOGS st + costForChunk,
                      consumptionLog := consumptionLog st @
                        [Consumed take (batch_date batch) (costPerGram batch)]\<rparr>;
             b2 = (if remainingQuantity b1 < 0.0001
                   then b1\<lparr>remainingQuantity := 0, closedDate := Some d\<rparr> else b1);
             (rest', st') = consume_loop d rest st1
         in (b2 # rest', st'))
      else (let (rest', st') = consume_loop d rest st in (batch # rest', st')))"

text \<open>The body of the outer loop for a sale: the log starts with the timestamp warning.\<close>

definition process_sale ::
  "invoice \<Rightarrow> InventoryBatch list \<Rightarrow> InventoryBatch list \<times> invoice" where
  "process_sale tx currentInventory =
     (let log0 = (if \<not> truthy (createdAt tx) then [NoTimestampWarning] else []);
          (inventory', st) = consume_loop (date tx) currentInventory
             \<lparr>remainingToSell = quantityGrams tx, totalCOGS = 0, consumptionLog = log0\<rparr>;
          log1 = (if remainingToSell st > 0.0001
                  then consumptionLog st @ [StockoutWarning (remainingToSell st)]
                  else consumptionLog st);
          profit1 = (if taxableAmount tx \<noteq> 0 then taxableAmount tx
                     else quantityGrams tx * ratePerGram tx) - totalCOGS st
      in (inventory',
          tx\<lparr>cogs := Some (totalCOGS st), profit := Some profit1, fifoLog := Some log1\<rparr>))"

definition process_purchase ::
  "invoice \<Rightarrow> InventoryBatch list \<Rightarrow> InventoryBatch list \<times> invoice" where
  "process_purchase tx currentInventory =
     (let newBatch = \<lparr>batch_id = inv_id tx, batch_date = date tx,
                      originalQuantity = quantityGrams tx,
                      remainingQuantity = quantityGrams tx,
                      costPerGram = ratePerGram tx, closedDate = None\<rparr>
      in (currentInventory @ [newBatch],
          tx\<lparr>cogs := Some 0, profit := Some 0, fifoLog := Some []\<rparr>))"

definition process_invoice ::
  "invoice \<Rightarrow> InventoryBatch list \<Rightarrow> InventoryBatch list \<times> invoice" where
  "process_invoice tx currentInventory =
     (if inv_type tx = PURCHASE then process_purchase tx currentInventory
      else process_sale tx currentInventory)"

text \<open>The outer loop \<^verbatim>\<open>for (const inv of sorted)\<close>.\<close>

fun replay_loop ::
  "invoice list \<Rightarrow> InventoryBatch list \<Rightarrow> invoice list \<Rightarrow> invoice list \<times> InventoryBatch list" where
  "replay_loop [] currentInventory processedInvoices = (processedInvoices, currentInventory)"
| "replay_loop (tx # rest) currentInventory processedInvoices =
     (let (inventory', tx') = process_invoice tx currentInventory
      in replay_loop rest inventory' (processedInvoices @ [tx']))"

record replay_result =
  updatedInvoices :: "invoice list"
  updatedInventory :: "InventoryBatch list"

definition recalculateAllData :: "invoice list \<Rightarrow> replay_result" where
  "recalculateAllData allInvoices =
     (let sorted = array_sort compareInvoices allInvoices;
          (processedInvoices, currentInventory) = replay_loop sorted [] []
      in \<lparr>updatedInvoices = processedInvoices, updatedInventory = currentInventory\<rparr>)"

text \<open>
  The live totals the application derives from the batch list
  (\<^verbatim>\<open>currentStock\<close> and \<^verbatim>\<open>fifoValue\<close>, two \<^verbatim>\<open>reduce\<close> calls over the inventory).
\<close>

definition currentStockOf :: "InventoryBatch list \<Rightarrow> real" where
  "currentStockOf inventory = foldl (\<lambda>acc batch. acc + remainingQuantity batch) 0 inventory"

definition fifoValueOf :: "InventoryBatch list \<Rightarrow> real" where
  "fifoValueOf inventory =
     foldl (\<lambda>acc batch. acc + remainingQuantity batch * costPerGram batch) 0 inventory"

section \<open>The snapshot engine: \<^verbatim>\<open>getInventorySnapshot\<close>\<close>

record snap_batch =
  quantity :: real
  cost :: real

text \<open>
  The inner \<^verbatim>\<open>while (remainingToSell > 0.000001 && batches.length > 0)\<close>, on the pair of
  \<^verbatim>\<open>remainingToSell\<close> and \<^verbatim>\<open>batches\<close>: its condition, and one run of its body. The head
  of the list is \<^verbatim>\<open>batches[0]\<close>, updated in place in the first branch and removed by
  \<^verbatim>\<open>shift\<close> in the second. The body is only run under the condition, so the list is
  not empty there; on the empty list the model's body changes nothing.
\<close>

definition sell_cond :: "real \<times> snap_batch list \<Rightarrow> bool" where
  "sell_cond s = (fst s > 0.000001 \<and> length (snd s) > 0)"

fun sell_body :: "real \<times> snap_batch list \<Rightarrow> real \<times> snap_batch list" where
  "sell_body (rts, []) = (rts, [])"
| "sell_body (rts, currentBatch # rest) =
     (if quantity currentBatch > rts
      then (0, currentBatch\<lparr>quantity := quantity currentBatch - rts\<rparr> # rest)
      else (rts - quantity currentBatch, rest))"

text \<open>
  The loop is the one loop of the engines that is not a walk over a finite array, so it
  is defined as a partial function: \<open>None\<close> stands for a loop that never ends.
\<close>

partial_function (option) sell_while :: "real \<times> snap_batch list \<Rightarrow> snap_batch list option" where
  "sell_while s = (if sell_cond s then sell_while (sell_body s) else Some (snd s))"

declare sell_while.simps [code]

text \<open>The outer loop, with the running \<^verbatim>\<open>totalQuantity\<close>, which is never clamped.\<close>

fun snapshot_loop ::
  "invoice list \<Rightarrow> snap_batch list \<Rightarrow> real \<Rightarrow> (snap_batch list \<times> real) option" where
  "snapshot_loop [] batches totalQuantity = Some (batches, totalQuantity)"
| "snapshot_loop (tx # rest) batches totalQuantity =
     (if inv_type tx = PURCHASE
      then snapshot_loop rest
             (batches @ [\<lparr>quantity = quantityGrams tx, cost = ratePerGram tx\<rparr>])
             (totalQuantity + quantityGrams tx)
      else (case sell_while (quantityGrams tx, batches) of
              None \<Rightarrow> None
            | Some batches' \<Rightarrow> snapshot_loop rest batches' (totalQuantity - quantityGrams tx)))"

text \<open>The result object \<^verbatim>\<open>{ grams, value }\<close>; the field \<^verbatim>\<open>value\<close> is called \<open>totalValue\<close>.\<close>

record snapshot =
  grams :: real
  totalValue :: real

definition getInventorySnapshot :: "invoice list \<Rightarrow> string \<Rightarrow> snapshot option" where
  "getInventorySnapshot invoices targetDate =
     (let relevantInvoices =
            array_sort compareInvoices (filter (\<lambda>tx. date tx \<le> targetDate) invoices)
      in case snapshot_loop relevantInvoices [] 0 of
           None \<Rightarrow> None
         | Some (batches, totalQuantity) \<Rightarrow>
             Some \<lparr>grams = max 0 totalQuantity,
                   totalValue = foldl (\<lambda>sum batch. sum + quantity batch * cost batch) 0 batches\<rparr>)"

definition calculateInventoryValueOnDate :: "invoice list \<Rightarrow> string \<Rightarrow> real option" where
  "calculateInventoryValueOnDate invoices targetDate =
     map_option totalValue (getInventorySnapshot invoices targetDate)"

section \<open>Analytics: \<^verbatim>\<open>calculateStockAging\<close> and \<^verbatim>\<open>calculateTurnoverStats\<close>\<close>

text \<open>
  Both functions turn date strings into milliseconds with the host's \<^verbatim>\<open>Date\<close>. That parser
  is taken as a parameter \<open>getTime\<close>: \<open>getTime s\<close> is \<^verbatim>\<open>new Date(s).getTime()\<close>, and
  \<open>None\<close> is the \<^verbatim>\<open>NaN\<close> of a string that is no date. \<open>now\<close> is \<^verbatim>\<open>new Date().getTime()\<close>.
  A number that can be \<^verbatim>\<open>NaN\<close> is a \<open>real option\<close>; arithmetic with \<open>None\<close> gives \<open>None\<close>
  and every comparison with \<open>None\<close> is false.
\<close>

definition diffDays :: "(string \<Rightarrow> real option) \<Rightarrow> real \<Rightarrow> InventoryBatch \<Rightarrow> real option" where
  "diffDays getTime now batch =
     (case getTime (batch_date batch) of
        None \<Rightarrow> None
      | Some batchDate \<Rightarrow>
          (let diffTime = \<bar>now - batchDate\<bar>
           in Some (of_int \<lceil>diffTime / (1000 * 60 * 60 * 24)\<rceil>)))"

definition at_most :: "real option \<Rightarrow> real \<Rightarrow> bool" where
  "at_most d c = (case d of None \<Rightarrow> False | Some x \<Rightarrow> x \<le> c)"

record aging_acc =
  acc_0_7 :: real
  acc_8_15 :: real
  acc_16_30 :: real
  acc_30_plus :: real
  totalDaysWeighted :: "real option"
  totalStock :: real

text \<open>The body of \<^verbatim>\<open>inventory.forEach\<close>; the first branch is the early \<^verbatim>\<open>return\<close>.\<close>

definition aging_step :: "(string \<Rightarrow> real option) \<Rightarrow> real \<Rightarrow> aging_acc \<Rightarrow> InventoryBatch \<Rightarrow> aging_acc" where
  "aging_step getTime now acc batch =
     (if remainingQuantity batch \<le> 0 then acc
      else
        (let d = diffDays getTime now batch;
             acc1 = acc\<lparr>totalStock := totalStock acc + remainingQuantity batch,
                        totalDaysWeighted :=
                          (case (totalDaysWeighted acc, d) of
                             (Some w, Some days) \<Rightarrow> Some (w + days * remainingQuantity batch)
                           | _ \<Rightarrow> None)\<rparr>
         in if at_most d 7 then acc1\<lparr>acc_0_7 := acc_0_7 acc1 + remainingQuantity batch\<rparr>
            else if at_most d 15 then acc1\<lparr>acc_8_15 := acc_8_15 acc1 + remainingQuantity batch\<rparr>
            else if at_most d 30 then acc1\<lparr>acc_16_30 := acc_16_30 acc1 + remainingQuantity batch\<rparr>
            else acc1\<lparr>acc_30_plus := acc_30_plus acc1 + remainingQuantity batch\<rparr>))"

text \<open>
  The result: the four entries of \<^verbatim>\<open>buckets\<close> (keys \<^verbatim>\<open>'0-7'\<close>, \<^verbatim>\<open>'8-15'\<close>, \<^verbatim>\<open>'16-30'\<close>,
  \<^verbatim>\<open>'30+'\<close>) and the weighted average.
\<close>

record AgingStats =
  bucket_0_7 :: real
  bucket_8_15 :: real
  bucket_16_30 :: real
  bucket_30_plus :: real
  weightedAvgDays :: "real option"

definition calculateStockAging ::
  "(string \<Rightarrow> real option) \<Rightarrow> real \<Rightarrow> InventoryBatch list \<Rightarrow> AgingStats" where
  "calculateStockAging getTime now inventory =
     (let acc = foldl (aging_step getTime now)
                  \<lparr>acc_0_7 = 0, acc_8_15 = 0, acc_16_30 = 0, acc_30_plus = 0,
                   totalDaysWeighted = Some 0, totalStock = 0\<rparr> inventory
      in \<lparr>bucket_0_7 = acc_0_7 acc, bucket_8_15 = acc_8_15 acc,
          bucket_16_30 = acc_16_30 acc, bucket_30_plus = acc_30_plus acc,
          weightedAvgDays =
            (if totalStock acc > 0
             then map_option (\<lambda>w. w / totalStock acc) (totalDaysWeighted acc)
             else Some 0)\<rparr>)"

text \<open>
  A quotient of two finite numbers is a finite number unless the divisor is zero, where
  the source would produce \<^verbatim>\<open>NaN\<close> or an infinity: that is \<open>None\<close> here.
\<close>

definition checked_div :: "real \<Rightarrow> real \<Rightarrow> real option" where
  "checked_div a b = (if b = 0 then None else Some (a / b))"

record TurnoverStats =
  turnoverRatio :: "real option"
  avgDaysToSell :: "real option"
  avgInventoryValue :: real
  periodCOGS :: real

text \<open>
  \<^verbatim>\<open>calculateTurnoverStats\<close>; the field \<^verbatim>\<open>totalCOGS\<close> of the result is \<open>periodCOGS\<close>. The
  function returns \<open>None\<close> only if a snapshot does not return.
\<close>

definition calculateTurnoverStats ::
  "(string \<Rightarrow> real option) \<Rightarrow> invoice list \<Rightarrow> string \<Rightarrow> string \<Rightarrow> TurnoverStats option" where
  "calculateTurnoverStats getTime invoices startDate endDate =
     (let periodInvoices = filter (\<lambda>i. date i \<ge> startDate \<and> date i \<le> endDate) invoices;
          sales = filter (\<lambda>i. inv_type i = SALE) periodInvoices;
          cogsTotal = foldl (\<lambda>acc s. acc + (case cogs s of None \<Rightarrow> 0 | Some c \<Rightarrow> c)) 0 sales
      in case calculateInventoryValueOnDate invoices startDate of
           None \<Rightarrow> None
         | Some startInventoryVal \<Rightarrow>
        (case calculateInventoryValueOnDate invoices endDate of
           None \<Rightarrow> None
         | Some endInventoryVal \<Rightarrow>
             (let avgInventoryVal = (startInventoryVal + endInventoryVal) / 2;
                  ratio = (if avgInventoryVal > 0 then checked_div cogsTotal avgInventoryVal
                           else Some 0);
                  daysInPeriod =
                    (case (getTime endDate, getTime startDate) of
                       (Some e, Some s) \<Rightarrow> Some (max 1 ((e - s) / (1000 * 3600 * 24)))
                     | _ \<Rightarrow> None);
                  avgDays =
                    (case ratio of
                       None \<Rightarrow> None
                     | Some r \<Rightarrow>
                         if r > 0
                         then (case daysInPeriod of None \<Rightarrow> None | Some d \<Rightarrow> checked_div d r)
                         else Some 0)
              in Some \<lparr>turnoverRatio = ratio, avgDaysToSell = avgDays,
                       avgInventoryValue = avgInventoryVal, periodCOGS = cogsTotal\<rparr>)))"

section \<open>The audit: \<^verbatim>\<open>performFullSystemAudit\<close>\<close>

text \<open>The issue strings, kept as values: the kind of issue and the numbers it prints.\<close>

datatype audit_issue =
    StockMismatch real real
  | NegativeStockDetected nat
  | DataIntegrity nat

record AuditReport =
  generatedAt :: string
  totalInvoices :: nat
  dataIntegrityIssues :: "audit_issue list"
  healthScore :: int
  recalculatedStock :: real
  recalculatedValue :: real

text \<open>
  The walk of check 2 over an ordered list, with \<^verbatim>\<open>runningStock\<close> and
  \<^verbatim>\<open>negativeStockCount\<close>.
\<close>

fun negative_walk :: "invoice list \<Rightarrow> real \<Rightarrow> nat \<Rightarrow> nat" where
  "negative_walk [] runningStock negativeStockCount = negativeStockCount"
| "negative_walk (tx # rest) runningStock negativeStockCount =
     (let running' = (if inv_type tx = PURCHASE then runningStock + quantityGrams tx
                      else runningStock - quantityGrams tx)
      in negative_walk rest running'
           (if running' < - 0.0001 then negativeStockCount + 1 else negativeStockCount))"

text \<open>Check 2 as the audit runs it: the copy is sorted by the date alone.\<close>

definition auditNegativeStockCount :: "invoice list \<Rightarrow> nat" where
  "auditNegativeStockCount invoices = negative_walk (array_sort compareDates invoices) 0 0"

text \<open>\<open>now\<close> is \<^verbatim>\<open>new Date().toISOString()\<close>.\<close>

definition performFullSystemAudit :: "string \<Rightarrow> invoice list \<Rightarrow> real \<Rightarrow> real \<Rightarrow> AuditReport" where
  "performFullSystemAudit now invoices currentStock currentValue =
     (let stockCheck = foldl (\<lambda>acc tx. if inv_type tx = PURCHASE then acc + quantityGrams tx
                                         else acc - quantityGrams tx) 0 invoices;
          mismatch = (\<bar>stockCheck - currentStock\<bar> > 0.001);
          negativeStockCount = auditNegativeStockCount invoices;
          missingFields = filter (\<lambda>i. partyName i = [] \<or> date i = [] \<or>
                                       quantityGrams i \<le> 0 \<or> ratePerGram i \<le> 0) invoices;
          issues = (if mismatch then [StockMismatch stockCheck currentStock] else []) @
                   (if negativeStockCount > 0 then [NegativeStockDetected negativeStockCount] else []) @
                   (if length missingFields > 0 then [DataIntegrity (length missingFields)] else []);
          score = 100 - (if mismatch then 20 else 0)
                      - (if negativeStockCount > 0 then 15 else 0)
                      - (if length missingFields > 0 then 10 else 0)
      in \<lparr>generatedAt = now, totalInvoices = length invoices,
          dataIntegrityIssues = issues, healthScore = max 0 score,
          recalculatedStock = stockCheck, recalculatedValue = currentValue\<rparr>)"

section \<open>The replay engine on an explicit store\<close>

text \<open>
  In the source a batch is an object: \<^verbatim>\<open>currentInventory\<close> holds references, the inner loop
  writes through them, and the returned array is kept by the application until the next
  run. To state what one run does to the objects of another, the replay is modelled a second
  time on an explicit store: a heap is the list of all batch objects alive, a reference is
  an index into it, a new object goes to the end. A run only reads references it has
  allocated itself, which are inside the heap.
\<close>

type_synonym heap = "InventoryBatch list"

text \<open>What the inner loop does to one open batch and to the loop state.\<close>

definition draw :: "string \<Rightarrow> InventoryBatch \<Rightarrow> sale_state \<Rightarrow> InventoryBatch \<times> sale_state" where
  "draw d batch st =
     (let take = min (remainingQuantity batch) (remainingToSell st);
          b1 = batch\<lparr>remainingQuantity := remainingQuantity batch - take\<rparr>;
          costForChunk = take * costPerGram batch;
          st1 = st\<lparr>remainingToSell := remainingToSell st - take,
                   totalCOGS := totalCOGS st + costForChunk,
                   consumptionLog := consumptionLog st @
                     [Consumed take (batch_date batch) (costPerGram batch)]\<rparr>;
          b2 = (if remainingQuantity b1 < 0.0001
                then b1\<lparr>remainingQuantity := 0, closedDate := Some d\<rparr> else b1)
      in (b2, st1))"

fun consume_loop_heap ::
  "string \<Rightarrow> nat list \<Rightarrow> heap \<Rightarrow> sale_state \<Rightarrow> heap \<times> sale_state" where
  "consume_loop_heap d [] h st = (h, st)"
| "consume_loop_heap d (ref # rest) h st =
     (if remainingToSell st \<le> 0 then (h, st)
      else if remainingQuantity (h ! ref) > 0.0001 then
        (let (b2, st1) = draw d (h ! ref) st
         in consume_loop_heap d rest (h[ref := b2]) st1)
      else consume_loop_heap d rest h st)"

definition process_sale_heap :: "invoice \<Rightarrow> nat list \<Rightarrow> heap \<Rightarrow> nat list \<times> heap \<times> invoice" where
  "process_sale_heap tx currentInventory h =
     (let log0 = (if \<not> truthy (createdAt tx) then [NoTimestampWarning] else []);
          (h', st) = consume_loop_heap (date tx) currentInventory h
             \<lparr>remainingToSell = quantityGrams tx, totalCOGS = 0, consumptionLog = log0\<rparr>;
          log1 = (if remainingToSell st > 0.0001
                  then consumptionLog st @ [StockoutWarning (remainingToSell st)]
                  else consumptionLog st);
          profit1 = (if taxableAmount tx \<noteq> 0 then taxableAmount tx
                     else quantityGrams tx * ratePerGram tx) - totalCOGS st
      in (currentInventory, h',
          tx\<lparr>cogs := Some (totalCOGS st), profit := Some profit1, fifoLog := Some log1\<rparr>))"

definition process_purchase_heap ::
  "invoice \<Rightarrow> nat list \<Rightarrow> heap \<Rightarrow> nat list \<times> heap \<times> invoice" where
  "process_purchase_heap tx currentInventory h =
     (let newBatch = \<lparr>batch_id = inv_id tx, batch_date = date tx,
                      originalQuantity = quantityGrams tx,
                      remainingQuantity = quantityGrams tx,
                      costPerGram = ratePerGram tx, closedDate = None\<rparr>
      in (currentInventory @ [length h], h @ [newBatch],
          tx\<lparr>cogs := Some 0, profit := Some 0, fifoLog := Some []\<rparr>))"

definition process_invoice_heap ::
  "invoice \<Rightarrow> nat list \<Rightarrow> heap \<Rightarrow> nat list \<times> heap \<times> invoice" where
  "process_invoice_heap tx currentInventory h =
     (if inv_type tx = PURCHASE then process_purchase_heap tx currentInventory h
      else process_sale_heap tx currentInventory h)"

fun replay_loop_heap ::
  "invoice list \<Rightarrow> nat list \<Rightarrow> heap \<Rightarrow> invoice list \<Rightarrow> invoice list \<times> nat list \<times> heap" where
  "replay_loop_heap [] currentInventory h processedInvoices =
     (processedInvoices, currentInventory, h)"
| "replay_loop_heap (tx # rest) currentInventory h processedInvoices =
     (let (inventory', h', tx') = process_invoice_heap tx currentInventory h
      in replay_loop_heap rest inventory' h' (processedInvoices @ [tx']))"

record heap_result =
  invoices_out :: "invoice list"
  inventory_refs :: "nat list"
  heap_after :: heap

definition recalculateAllData_heap :: "heap \<Rightarrow> invoice list \<Rightarrow> heap_result" where
  "recalculateAllData_heap h allInvoices =
     (let sorted = array_sort compareInvoices allInvoices;
          (processedInvoices, currentInventory, h') = replay_loop_heap sorted [] h []
      in \<lparr>invoices_out = processedInvoices, inventory_refs = currentInventory,
          heap_after = h'\<rparr>)"

text \<open>A second run on the same collection, on the heap the first run has left.\<close>

definition second_run :: "heap \<Rightarrow> invoice list \<Rightarrow> heap_result" where
  "second_run h allInvoices =
     recalculateAllData_heap (heap_after (recalculateAllData_heap h allInvoices)) allInvoices"

text \<open>The objects a list of references points to.\<close>

definition deref :: "heap \<Rightarrow> nat list \<Rightarrow> InventoryBatch list" where
  "deref h refs = map (\<lambda>r. h ! r) refs"

section \<open>Reading the results\<close>

text \<open>
  The cost a consumption log accounts for: the sum over its consumption lines of the
  grams taken times the unit cost of the batch they were taken from.
\<close>

fun chunk_cost :: "log_line \<Rightarrow> real" where
  "chunk_cost (Consumed amount d c) = amount * c"
| "chunk_cost _ = 0"

definition log_cost :: "log_line list \<Rightarrow> real" where
  "log_cost ls = sum_list (map chunk_cost ls)"

text \<open>What the replay attaches to a sale: cost from the log, profit from the taxable amount.\<close>

definition sale_profit_ok :: "invoice \<Rightarrow> bool" where
  "sale_profit_ok p = (inv_type p = SALE \<longrightarrow>
     (\<exists>ls. fifoLog p = Some ls \<and> cogs p = Some (log_cost ls) \<and>
        profit p = Some ((if taxableAmount p \<noteq> 0 then taxableAmount p
                          else quantityGrams p * ratePerGram p) - log_cost ls)))"






text \<open>
  The bounds on a batch: remaining quantity between 0 and the original quantity, and a
  remaining quantity under the threshold is either 0 or the untouched original quantity.
\<close>

definition batch_ok :: "InventoryBatch \<Rightarrow> bool" where
  "batch_ok b = (0 \<le> remainingQuantity b \<and> remainingQuantity b \<le> originalQuantity b \<and>
     (remainingQuantity b < 0.0001 \<longrightarrow>
        remainingQuantity b = 0 \<or> remainingQuantity b = originalQuantity b))"

text \<open>
  The quantity that goes down with every run of the body of the snapshot's inner loop: the
  number of batches, plus one while there is still something to sell.
\<close>

definition sell_measure :: "real \<times> snap_batch list \<Rightarrow> nat" where
  "sell_measure s = length (snd s) + (if fst s > 0.000001 then 1 else 0)"

text \<open>
  For the aging statistics: the active batches, the grams of a list of batches, the age of
  a batch in whole days (the day difference, rounded up) and the grams-weighted mean of
  the ages of a list of batches.
\<close>

definition active :: "InventoryBatch list \<Rightarrow> InventoryBatch list" where
  "active inventory = filter (\<lambda>b. remainingQuantity b > 0) inventory"

definition grams_of :: "InventoryBatch list \<Rightarrow> real" where
  "grams_of bs = sum_list (map remainingQuantity bs)"

definition day_age :: "real \<Rightarrow> real \<Rightarrow> real" where
  "day_age now t = of_int \<lceil>\<bar>now - t\<bar> / 86400000\<rceil>"

definition mean_age :: "(InventoryBatch \<Rightarrow> real) \<Rightarrow> InventoryBatch list \<Rightarrow> real" where
  "mean_age age bs = sum_list (map (\<lambda>b. age b * remainingQuantity b) bs) / grams_of bs"

definition acc_buckets :: "aging_acc \<Rightarrow> real" where
  "acc_buckets acc = acc_0_7 acc + acc_8_15 acc + acc_16_30 acc + acc_30_plus acc"

text \<open>
  For the comparison of the two engines: a quantity is on the grid of a unit \<open>g\<close> when it
  is a whole multiple of \<open>g\<close>; the view of a batch list is what the snapshot engine keeps
  of it, the quantity and cost of the batches that still hold something, in order.
\<close>

definition on_grid :: "real \<Rightarrow> real \<Rightarrow> bool" where
  "on_grid g x = (\<exists>k::nat. x = real k * g)"

definition view :: "InventoryBatch list \<Rightarrow> snap_batch list" where
  "view B = map (\<lambda>b. \<lparr>quantity = remainingQuantity b, cost = costPerGram b\<rparr>) (active B)"

text \<open>
  The signed total of a transaction list (purchases add, sales subtract), the test for a
  stockout line in the log of an annotated transaction, and the state in which the inner
  loop of the replay starts for a sale.
\<close>

definition signed_sum :: "invoice list \<Rightarrow> real" where
  "signed_sum txs =
     sum_list (map (\<lambda>tx. if inv_type tx = PURCHASE then quantityGrams tx else - quantityGrams tx) txs)"

fun is_stockout :: "log_line \<Rightarrow> bool" where
  "is_stockout (StockoutWarning n) = True"
| "is_stockout _ = False"

definition no_stockout :: "invoice \<Rightarrow> bool" where
  "no_stockout p = (case fifoLog p of None \<Rightarrow> True | Some ls \<Rightarrow> \<not> list_ex is_stockout ls)"

definition sale_start :: "invoice \<Rightarrow> sale_state" where
  "sale_start tx = \<lparr>remainingToSell = quantityGrams tx, totalCOGS = 0,
     consumptionLog = (if \<not> truthy (createdAt tx) then [NoTimestampWarning] else [])\<rparr>"

section \<open>Sample ledgers\<close>

text \<open>
  A transaction with identifier, date, creation timestamp, kind, grams, rate and taxable
  amount as given, as it enters the ledger (nothing derived attached yet).
\<close>

definition sample_invoice ::
  "string \<Rightarrow> string \<Rightarrow> string option \<Rightarrow> invoice_type \<Rightarrow> real \<Rightarrow> real \<Rightarrow> real \<Rightarrow> invoice" where
  "sample_invoice i d c t q r ta =
     \<lparr>inv_id = i, date = d, createdAt = c, inv_type = t, partyName = ''Acme'',
      quantityGrams = q, ratePerGram = r, taxableAmount = ta, gstAmount = 0,
      totalAmount = ta, cogs = None, profit = None, fifoLog = None\<rparr>"

text \<open>A purchase of 100 g at 6000, then a sale of 40 g at 6500 whose taxable amount is 0.\<close>

definition zero_taxable_ledger :: "invoice list" where
  "zero_taxable_ledger =
     [sample_invoice ''a'' ''2024-01-01'' None PURCHASE 100 6000 600000,
      sample_invoice ''b'' ''2024-01-05'' None SALE 40 6500 0]"

text \<open>
  A purchase at 09:00 and a sale at 10:00 of the same day, newest first, which is the order
  in which the application keeps its list (\<^verbatim>\<open>setInvoices(updatedInvoices.reverse())\<close>) and
  hands it to the audit.
\<close>

definition same_day_ledger :: "invoice list" where
  "same_day_ledger =
     [sample_invoice ''b'' ''2024-01-01'' (Some ''2024-01-01T10:00:00.000Z'') SALE 5 6500 32500,
      sample_invoice ''a'' ''2024-01-01'' (Some ''2024-01-01T09:00:00.000Z'') PURCHASE 5 6000 30000]"



text \<open>Ten grams bought, 9.99995 sold the day after.\<close>

definition tiny_residue_ledger :: "invoice list" where
  "tiny_residue_ledger =
     [sample_invoice ''a'' ''2024-01-01'' (Some ''2024-01-01T09:00:00.000Z'') PURCHASE 10 6000 60000,
      sample_invoice ''b'' ''2024-01-02'' (Some ''2024-01-02T09:00:00.000Z'') SALE 9.99995 6500 65000]"

text \<open>
  The host's date parser on the three dates used below (UTC midnight in milliseconds); any
  other string, the empty one included, counts as no date.
\<close>

definition sample_getTime :: "string \<Rightarrow> real option" where
  "sample_getTime s =
     (if s = ''2024-01-01'' then Some 1704067200000
      else if s = ''2024-01-21'' then Some 1705795200000
      else if s = ''2024-01-31'' then Some 1706659200000
      else None)"

text \<open>One closed batch and two active ones, with the acquisition times of their dates.\<close>

definition sample_inventory :: "InventoryBatch list" where
  "sample_inventory =
     [\<lparr>batch_id = ''a'', batch_date = ''2024-01-01'', originalQuantity = 10,
       remainingQuantity = 0, costPerGram = 6000, closedDate = Some ''2024-01-05''\<rparr>,
      \<lparr>batch_id = ''b'', batch_date = ''2024-01-01'', originalQuantity = 10,
       remainingQuantity = 4, costPerGram = 6000, closedDate = None\<rparr>,
      \<lparr>batch_id = ''c'', batch_date = ''2024-01-21'', originalQuantity = 6,
       remainingQuantity = 6, costPerGram = 6100, closedDate = None\<rparr>]"

definition sample_time :: "InventoryBatch \<Rightarrow> real" where
  "sample_time b = (if batch_date b = ''2024-01-01'' then 1704067200000 else 1705795200000)"

text \<open>
  One purchase of 100 g at 6000 on day 1 and one sale of 40 g on day 5 with the taxable
  amount 260000.
\<close>

definition scenario_a_ledger :: "invoice list" where
  "scenario_a_ledger =
     [sample_invoice ''a'' ''2024-01-01'' (Some ''2024-01-01T09:00:00.000Z'') PURCHASE 100 6000 600000,
      sample_invoice ''b'' ''2024-01-05'' (Some ''2024-01-05T09:00:00.000Z'') SALE 40 6500 260000]"

text \<open>Ten grams bought, fifteen sold, five bought, on three consecutive days.\<close>

definition restock_ledger :: "invoice list" where
  "restock_ledger =
     [sample_invoice ''a'' ''2024-01-01'' (Some ''2024-01-01T09:00:00.000Z'') PURCHASE 10 6000 60000,
      sample_invoice ''b'' ''2024-01-02'' (Some ''2024-01-02T09:00:00.000Z'') SALE 15 6500 97500,
      sample_invoice ''c'' ''2024-01-03'' (Some ''2024-01-03T09:00:00.000Z'') PURCHASE 5 6100 30500]"

text \<open>One active batch whose date is the empty string.\<close>

definition undated_inventory :: "InventoryBatch list" where
  "undated_inventory =
     [\<lparr>batch_id = ''d'', batch_date = [], originalQuantity = 3,
       remainingQuantity = 3, costPerGram = 6000, closedDate = None\<rparr>]"

section \<open>Properties\<close>

subsection \<open>Sorting and the outer loop\<close>

lemma set_insert_by: "set (insert_by cmp x ys) = insert x (set ys)"
  by (induction ys) auto

lemma length_insert_by: "length (insert_by cmp x ys) = Suc (length ys)"
  by (induction ys) auto

lemma set_array_sort: "set (array_sort cmp xs) = set xs"
  unfolding array_sort_def by (induction xs) (auto simp: set_insert_by)

lemma length_array_sort: "length (array_sort cmp xs) = length xs"
  unfolding array_sort_def by (induction xs) (auto simp: length_insert_by)

text \<open>
  What holds of every result of the loop body holds of every annotated transaction.
\<close>

lemma replay_loop_invoices:
  assumes "\<forall>p\<in>set acc. P p"
    and "\<And>tx B. tx \<in> set txs \<Longrightarrow> P (snd (process_invoice tx B))"
  shows "\<forall>p\<in>set (fst (replay_loop txs B acc)). P p"
  using assms
proof (induction txs arbitrary: B acc)
  case Nil
  then show ?case by simp
next
  case (Cons tx txs)
  obtain B' tx' where step: "process_invoice tx B = (B', tx')" by (cases "process_invoice tx B")
  have "P tx'" using Cons.prems(2)[of tx B] step by simp
  then have a: "\<forall>p\<in>set (acc @ [tx']). P p" using Cons.prems(1) by simp
  have "\<forall>p\<in>set (fst (replay_loop txs B' (acc @ [tx']))). P p"
  proof (rule Cons.IH [OF a])
    fix t C assume "t \<in> set txs"
    then show "P (snd (process_invoice t C))" using Cons.prems(2)[of t C] by simp
  qed
  then show ?case using step by simp
qed

subsection \<open>Profit of a sale\<close>

lemma consume_loop_cost:
  "totalCOGS (snd (consume_loop d B st)) - log_cost (consumptionLog (snd (consume_loop d B st)))
     = totalCOGS st - log_cost (consumptionLog st)"
proof (induction d B st rule: consume_loop.induct)
  case (1 d st)
  then show ?case by simp
next
  case (2 d batch rest st)
  show ?case
  proof (cases "remainingToSell st \<le> 0")
    case True
    then show ?thesis by simp
  next
    case False
    show ?thesis
    proof (cases "remainingQuantity batch > 0.0001")
      case True
      then show ?thesis using False 2(1)[OF False True refl refl refl refl refl]
        by (simp add: Let_def split_beta log_cost_def)
    next
      case False2: False
      then show ?thesis using False 2(2)[OF False False2]
        by (simp add: Let_def split_beta)
    qed
  qed
qed

lemma process_sale_profit:
  "\<exists>ls. fifoLog (snd (process_sale tx B)) = Some ls \<and>
     cogs (snd (process_sale tx B)) = Some (log_cost ls) \<and>
     profit (snd (process_sale tx B)) =
       Some ((if taxableAmount tx \<noteq> 0 then taxableAmount tx
              else quantityGrams tx * ratePerGram tx) - log_cost ls)"
proof -
  define log0 where "log0 = (if \<not> truthy (createdAt tx) then [NoTimestampWarning] else [])"
  define st0 where
    "st0 = \<lparr>remainingToSell = quantityGrams tx, totalCOGS = 0, consumptionLog = log0\<rparr>"
  obtain B' st where run: "consume_loop (date tx) B st0 = (B', st)"
    by (cases "consume_loop (date tx) B st0")
  have "log_cost log0 = 0" by (simp add: log0_def log_cost_def)
  then have c: "totalCOGS st = log_cost (consumptionLog st)"
    using consume_loop_cost[of "date tx" B st0] run by (simp add: st0_def)
  have l: "log_cost (consumptionLog st @ [StockoutWarning (remainingToSell st)])
             = log_cost (consumptionLog st)"
    by (simp add: log_cost_def)
  show ?thesis
    using run c l unfolding process_sale_def log0_def[symmetric] st0_def[symmetric] Let_def
    by simp
qed

lemma process_invoice_fields:
  "inv_type (snd (process_invoice tx B)) = inv_type tx \<and>
   taxableAmount (snd (process_invoice tx B)) = taxableAmount tx \<and>
   quantityGrams (snd (process_invoice tx B)) = quantityGrams tx \<and>
   ratePerGram (snd (process_invoice tx B)) = ratePerGram tx"
  by (simp add: process_invoice_def process_purchase_def process_sale_def Let_def split_beta)

lemma process_invoice_profit_ok: "sale_profit_ok (snd (process_invoice tx B))"
proof (cases "inv_type tx = PURCHASE")
  case True
  then show ?thesis using process_invoice_fields[of tx B] by (simp add: sale_profit_ok_def)
next
  case False
  then have "process_invoice tx B = process_sale tx B" by (simp add: process_invoice_def)
  then show ?thesis
    using process_sale_profit[of tx B] process_invoice_fields[of tx B]
    by (auto simp add: sale_profit_ok_def)
qed

text \<open>
  C2, as the code has it. For every sale in the replay's output, the cost of goods sold
  attached to it is the cost its consumption log accounts for, and the profit attached is
  the taxable amount minus that cost when the taxable amount is not zero; when the taxable
  amount is zero the profit is quantity times rate minus that cost.
\<close>

theorem replay_sale_profit:
  "\<forall>p\<in>set (updatedInvoices (recalculateAllData allInvoices)).
     inv_type p = SALE \<longrightarrow>
     (\<exists>ls. fifoLog p = Some ls \<and> cogs p = Some (log_cost ls) \<and>
        profit p = Some ((if taxableAmount p \<noteq> 0 then taxableAmount p
                          else quantityGrams p * ratePerGram p) - log_cost ls))"
proof -
  have "\<forall>p\<in>set (fst (replay_loop (array_sort compareInvoices allInvoices) [] [])).
          sale_profit_ok p"
    by (rule replay_loop_invoices) (simp_all add: process_invoice_profit_ok)
  then show ?thesis by (simp add: recalculateAllData_def Let_def split_beta sale_profit_ok_def)
qed

theorem replay_sale_profit_witness:
  "inv_type (updatedInvoices (recalculateAllData zero_taxable_ledger) ! 1) = SALE \<and>
   (\<exists>ls. fifoLog (updatedInvoices (recalculateAllData zero_taxable_ledger) ! 1) = Some ls \<and>
      cogs (updatedInvoices (recalculateAllData zero_taxable_ledger) ! 1) = Some (log_cost ls) \<and>
      profit (updatedInvoices (recalculateAllData zero_taxable_ledger) ! 1) =
        Some (40 * 6500 - log_cost ls))"
proof -
  have "length (updatedInvoices (recalculateAllData zero_taxable_ledger)) = 2" by code_simp
  then have m: "updatedInvoices (recalculateAllData zero_taxable_ledger) ! 1
      \<in> set (updatedInvoices (recalculateAllData zero_taxable_ledger))"
    by simp
  have t: "inv_type (updatedInvoices (recalculateAllData zero_taxable_ledger) ! 1) = SALE"
    by code_simp
  have f: "taxableAmount (updatedInvoices (recalculateAllData zero_taxable_ledger) ! 1) = 0 \<and>
     quantityGrams (updatedInvoices (recalculateAllData zero_taxable_ledger) ! 1) = 40 \<and>
     ratePerGram (updatedInvoices (recalculateAllData zero_taxable_ledger) ! 1) = 6500"
    by code_simp
  show ?thesis using replay_sale_profit[of zero_taxable_ledger] m t f by auto
qed

text \<open>
  The claim as worded fails on a sale whose taxable amount is 0: 40 g sold at 6500 out of
  a batch bought at 6000 get the profit 260000 - 240000 = 20000, not 0 - 240000.
\<close>

theorem zero_taxable_profit:
  "inv_type (updatedInvoices (recalculateAllData zero_taxable_ledger) ! 1) = SALE \<and>
   taxableAmount (updatedInvoices (recalculateAllData zero_taxable_ledger) ! 1) = 0 \<and>
   cogs (updatedInvoices (recalculateAllData zero_taxable_ledger) ! 1) = Some 240000 \<and>
   profit (updatedInvoices (recalculateAllData zero_taxable_ledger) ! 1) = Some 20000 \<and>
   profit (updatedInvoices (recalculateAllData zero_taxable_ledger) ! 1) \<noteq> Some (0 - 240000)"
  by code_simp

subsection \<open>The audit\<close>

text \<open>
  C10. The report's \<open>recalculatedValue\<close> is the \<open>currentValue\<close> the caller passed in,
  whatever the transactions are.
\<close>

theorem audit_value_passed_through:
  "recalculatedValue (performFullSystemAudit now invoices currentStock currentValue) = currentValue"
  by (simp add: performFullSystemAudit_def Let_def)

text \<open>
  C4 on the same-day ledger: the audit sorts by date alone, so the sale of 10:00 stays in
  front of the purchase of 09:00 and the audit counts one negative-stock event; the walk in
  the order of the three-tier comparator counts none.
\<close>

theorem audit_walk_same_day:
  "auditNegativeStockCount same_day_ledger = 1 \<and>
   negative_walk (array_sort compareInvoices same_day_ledger) 0 0 = 0"
  by code_simp

subsection \<open>A sale beyond the stock\<close>









subsection \<open>Bounds on the remaining quantities\<close>

lemma consume_loop_ok:
  "\<forall>b\<in>set B. batch_ok b \<Longrightarrow> \<forall>b\<in>set (fst (consume_loop d B st)). batch_ok b"
proof (induction d B st rule: consume_loop.induct)
  case (1 d st)
  then show ?case by simp
next
  case (2 d batch rest st)
  have okb: "batch_ok batch" and okr: "\<forall>b\<in>set rest. batch_ok b" using 2(3) by simp_all
  show ?case
  proof (cases "remainingToSell st \<le> 0")
    case True
    then show ?thesis using 2(3) by simp
  next
    case False
    show ?thesis
    proof (cases "remainingQuantity batch > 0.0001")
      case True
      have "batch_ok (batch\<lparr>remainingQuantity := 0, closedDate := Some d\<rparr>)"
        using okb by (simp add: batch_ok_def)
      moreover have "\<not> remainingQuantity batch - min (remainingQuantity batch) (remainingToSell st) < 0.0001
        \<Longrightarrow> batch_ok (batch\<lparr>remainingQuantity := remainingQuantity batch - min (remainingQuantity batch) (remainingToSell st)\<rparr>)"
        using okb False by (simp add: batch_ok_def min_def split: if_splits)
      ultimately show ?thesis
        using False True 2(1)[OF False True refl refl refl refl refl okr]
        by (simp add: Let_def split_beta)
    next
      case False2: False
      then show ?thesis using False okb 2(2)[OF False False2 okr]
        by (simp add: Let_def split_beta)
    qed
  qed
qed

lemma process_invoice_ok:
  assumes "0 < quantityGrams tx" and "\<forall>b\<in>set B. batch_ok b"
  shows "\<forall>b\<in>set (fst (process_invoice tx B)). batch_ok b"
proof (cases "inv_type tx = PURCHASE")
  case True
  then show ?thesis using assms
    by (simp add: process_invoice_def process_purchase_def batch_ok_def)
next
  case False
  then show ?thesis using consume_loop_ok[OF assms(2)]
    by (simp add: process_invoice_def process_sale_def Let_def split_beta)
qed

lemma replay_loop_ok:
  assumes "\<forall>tx\<in>set txs. 0 < quantityGrams tx" and "\<forall>b\<in>set B. batch_ok b"
  shows "\<forall>b\<in>set (snd (replay_loop txs B acc)). batch_ok b"
  using assms
proof (induction txs arbitrary: B acc)
  case Nil
  then show ?case by simp
next
  case (Cons tx txs)
  have "\<forall>b\<in>set (fst (process_invoice tx B)). batch_ok b"
    using process_invoice_ok[of tx B] Cons.prems by simp
  then show ?case using Cons.IH Cons.prems(1) by (simp add: split_beta)
qed

lemma foldl_plus_sum_list:
  "foldl (\<lambda>acc x. acc + f x) a xs = a + sum_list (map f xs)" for a :: real
  by (induction xs arbitrary: a) (simp_all add: add.assoc)

lemma currentStockOf_sum: "currentStockOf B = sum_list (map remainingQuantity B)"
  by (simp add: currentStockOf_def foldl_plus_sum_list)

lemma fifoValueOf_sum:
  "fifoValueOf B = sum_list (map (\<lambda>b. remainingQuantity b * costPerGram b) B)"
  by (simp add: fifoValueOf_def foldl_plus_sum_list)

text \<open>
  C5. When every quantity of the collection is positive, every batch the replay returns has
  its remaining quantity between 0 and its original quantity; a remaining quantity below
  0.0001 is exactly 0 unless the batch was never drawn from (it then still has its
  original quantity); and the live stock, the sum of the remaining quantities, is not
  negative.
\<close>

theorem replay_remaining_bounds:
  assumes "\<forall>tx\<in>set allInvoices. 0 < quantityGrams tx"
  shows "(\<forall>b\<in>set (updatedInventory (recalculateAllData allInvoices)).
            0 \<le> remainingQuantity b \<and> remainingQuantity b \<le> originalQuantity b \<and>
            (remainingQuantity b < 0.0001 \<longrightarrow>
               remainingQuantity b = 0 \<or> remainingQuantity b = originalQuantity b)) \<and>
         0 \<le> currentStockOf (updatedInventory (recalculateAllData allInvoices))"
proof -
  have "\<forall>tx\<in>set (array_sort compareInvoices allInvoices). 0 < quantityGrams tx"
    using assms by (simp add: set_array_sort)
  then have "\<forall>b\<in>set (snd (replay_loop (array_sort compareInvoices allInvoices) [] [])). batch_ok b"
    by (rule replay_loop_ok) simp
  then have ok: "\<forall>b\<in>set (updatedInventory (recalculateAllData allInvoices)). batch_ok b"
    by (simp add: recalculateAllData_def Let_def split_beta)
  then have "0 \<le> sum_list (map remainingQuantity (updatedInventory (recalculateAllData allInvoices)))"
    by (intro sum_list_nonneg) (auto simp: batch_ok_def)
  then show ?thesis using ok by (simp add: currentStockOf_sum batch_ok_def)
qed

theorem replay_remaining_bounds_witness:
  "0 < quantityGrams (tiny_residue_ledger ! 0) \<and> 0 < quantityGrams (tiny_residue_ledger ! 1) \<and>
   remainingQuantity (updatedInventory (recalculateAllData tiny_residue_ledger) ! 0) = 0 \<and>
   0 \<le> remainingQuantity (updatedInventory (recalculateAllData tiny_residue_ledger) ! 0) \<and>
   remainingQuantity (updatedInventory (recalculateAllData tiny_residue_ledger) ! 0)
     \<le> originalQuantity (updatedInventory (recalculateAllData tiny_residue_ledger) ! 0) \<and>
   0 \<le> currentStockOf (updatedInventory (recalculateAllData tiny_residue_ledger))"
proof -
  have h: "\<forall>tx\<in>set tiny_residue_ledger. 0 < quantityGrams tx" by code_simp
  have q: "0 < quantityGrams (tiny_residue_ledger ! 0) \<and> 0 < quantityGrams (tiny_residue_ledger ! 1)"
    by code_simp
  have "length (updatedInventory (recalculateAllData tiny_residue_ledger)) = 1" by code_simp
  then have m: "updatedInventory (recalculateAllData tiny_residue_ledger) ! 0
      \<in> set (updatedInventory (recalculateAllData tiny_residue_ledger))"
    by simp
  have z: "remainingQuantity (updatedInventory (recalculateAllData tiny_residue_ledger) ! 0) = 0"
    by code_simp
  show ?thesis using replay_remaining_bounds[OF h] m q z by blast
qed

subsection \<open>Termination\<close>

lemma sell_body_progress:
  "sell_cond s \<Longrightarrow> length (snd (sell_body s)) < length (snd s) \<or> fst (sell_body s) = 0"
  by (cases s rule: sell_body.cases) (auto simp: sell_cond_def)

lemma sell_body_measure: "sell_cond s \<Longrightarrow> sell_measure (sell_body s) < sell_measure s"
  by (cases s rule: sell_body.cases) (auto simp: sell_cond_def sell_measure_def)

lemma sell_while_returns: "\<exists>r. sell_while s = Some r"
proof (induction "sell_measure s" arbitrary: s rule: less_induct)
  case less
  show ?case
  proof (cases "sell_cond s")
    case True
    then have "\<exists>r. sell_while (sell_body s) = Some r"
      using less.hyps[of "sell_body s"] sell_body_measure by simp
    then show ?thesis using True by (subst sell_while.simps) simp
  next
    case False
    then show ?thesis by (subst sell_while.simps) simp
  qed
qed

lemma snapshot_loop_returns: "\<exists>r. snapshot_loop txs batches totalQuantity = Some r"
proof (induction txs arbitrary: batches totalQuantity)
  case Nil
  then show ?case by simp
next
  case (Cons tx txs)
  show ?case
  proof (cases "inv_type tx = PURCHASE")
    case True
    then show ?thesis using Cons.IH by simp
  next
    case False
    obtain bs where "sell_while (quantityGrams tx, batches) = Some bs"
      using sell_while_returns by blast
    then show ?thesis using False Cons.IH by simp
  qed
qed

lemma getInventorySnapshot_returns: "\<exists>r. getInventorySnapshot invoices targetDate = Some r"
proof -
  obtain r where "snapshot_loop
      (array_sort compareInvoices (filter (\<lambda>tx. date tx \<le> targetDate) invoices)) [] 0 = Some r"
    using snapshot_loop_returns by blast
  then show ?thesis by (cases r) (simp add: getInventorySnapshot_def)
qed

lemma length_replay_loop:
  "length (fst (replay_loop txs B acc)) = length acc + length txs"
  by (induction txs arbitrary: B acc) (simp_all add: split_beta)

lemma length_updatedInvoices:
  "length (updatedInvoices (recalculateAllData allInvoices)) = length allInvoices"
  by (simp add: recalculateAllData_def Let_def split_beta length_replay_loop length_array_sort)

text \<open>
  C9. On every collection and every cutoff the snapshot engine returns a result (its inner
  loop ends), and the replay engine returns a result with one annotated transaction per
  input transaction, whatever the quantities are. Each run of the body of the snapshot's
  inner loop removes a batch from the list or sets the amount still to sell to 0.
\<close>

theorem engines_return:
  "(\<exists>r. getInventorySnapshot invoices targetDate = Some r) \<and>
   (\<exists>r. recalculateAllData invoices = r \<and> length (updatedInvoices r) = length invoices) \<and>
   (\<forall>s. sell_cond s \<longrightarrow>
      length (snd (sell_body s)) < length (snd s) \<or> fst (sell_body s) = 0)"
  using getInventorySnapshot_returns length_updatedInvoices sell_body_progress by blast

theorem engines_return_witness:
  "sell_cond (15, [\<lparr>quantity = 10, cost = 6000\<rparr>, \<lparr>quantity = 20, cost = 6100\<rparr>]) \<and>
   sell_body (15, [\<lparr>quantity = 10, cost = 6000\<rparr>, \<lparr>quantity = 20, cost = 6100\<rparr>]) =
     (5, [\<lparr>quantity = 20, cost = 6100\<rparr>]) \<and>
   (length (snd (sell_body (15, [\<lparr>quantity = 10, cost = 6000\<rparr>, \<lparr>quantity = 20, cost = 6100\<rparr>])))
      < length (snd (15::real, [\<lparr>quantity = 10, cost = 6000\<rparr>, \<lparr>quantity = 20, cost = 6100\<rparr>])) \<or>
    fst (sell_body (15, [\<lparr>quantity = 10, cost = 6000\<rparr>, \<lparr>quantity = 20, cost = 6100\<rparr>])) = 0)"
proof -
  have c: "sell_cond (15, [\<lparr>quantity = 10, cost = 6000\<rparr>, \<lparr>quantity = 20, cost = 6100\<rparr>])"
    by (simp add: sell_cond_def)
  have b: "sell_body (15, [\<lparr>quantity = 10, cost = 6000\<rparr>, \<lparr>quantity = 20, cost = 6100\<rparr>]) =
     (5, [\<lparr>quantity = 20, cost = 6100\<rparr>])" by simp
  from engines_return[of "[]" "[]"] c
  have "length (snd (sell_body (15, [\<lparr>quantity = 10, cost = 6000\<rparr>, \<lparr>quantity = 20, cost = 6100\<rparr>])))
      < length (snd (15::real, [\<lparr>quantity = 10, cost = 6000\<rparr>, \<lparr>quantity = 20, cost = 6100\<rparr>])) \<or>
    fst (sell_body (15, [\<lparr>quantity = 10, cost = 6000\<rparr>, \<lparr>quantity = 20, cost = 6100\<rparr>])) = 0"
    by blast
  then show ?thesis using c b by blast
qed

subsection \<open>Aging\<close>

lemma aging_step_buckets:
  "acc_buckets (aging_step getTime now acc b) =
     acc_buckets acc + (if remainingQuantity b > 0 then remainingQuantity b else 0)"
  by (simp add: aging_step_def acc_buckets_def Let_def)

lemma aging_step_stock:
  "totalStock (aging_step getTime now acc b) =
     totalStock acc + (if remainingQuantity b > 0 then remainingQuantity b else 0)"
  by (simp add: aging_step_def Let_def)

lemma aging_fold_buckets:
  "acc_buckets (foldl (aging_step getTime now) acc bs) = acc_buckets acc + grams_of (active bs)"
  by (induction bs arbitrary: acc) (simp_all add: aging_step_buckets active_def grams_of_def)

lemma aging_fold_stock:
  "totalStock (foldl (aging_step getTime now) acc bs) = totalStock acc + grams_of (active bs)"
  by (induction bs arbitrary: acc) (simp_all add: aging_step_stock active_def grams_of_def)

lemma diffDays_day_age:
  "getTime (batch_date b) = Some t \<Longrightarrow> diffDays getTime now b = Some (day_age now t)"
  by (simp add: diffDays_def day_age_def Let_def)

lemma aging_step_weighted:
  assumes "totalDaysWeighted acc = Some w"
    and "remainingQuantity b > 0 \<longrightarrow> diffDays getTime now b = Some (age b)"
  shows "totalDaysWeighted (aging_step getTime now acc b) =
     Some (w + (if remainingQuantity b > 0 then age b * remainingQuantity b else 0))"
  using assms by (simp add: aging_step_def Let_def)

lemma aging_fold_weighted:
  assumes "totalDaysWeighted acc = Some w"
    and "\<forall>b\<in>set (active bs). diffDays getTime now b = Some (age b)"
  shows "totalDaysWeighted (foldl (aging_step getTime now) acc bs) =
     Some (w + sum_list (map (\<lambda>b. age b * remainingQuantity b) (active bs)))"
  using assms
proof (induction bs arbitrary: acc w)
  case Nil
  then show ?case by (simp add: active_def)
next
  case (Cons b bs)
  have s: "totalDaysWeighted (aging_step getTime now acc b) =
     Some (w + (if remainingQuantity b > 0 then age b * remainingQuantity b else 0))"
    using Cons.prems
    by (intro aging_step_weighted[where age=age]) (auto simp: active_def)
  have r: "\<forall>b\<in>set (active bs). diffDays getTime now b = Some (age b)"
    using Cons.prems(2) by (auto simp: active_def)
  show ?case using Cons.IH[OF s r] by (simp add: active_def add.assoc)
qed

lemma aging_step_each:
  assumes "remainingQuantity b > 0 \<longrightarrow> diffDays getTime now b = Some (age b)"
  shows "acc_0_7 (aging_step getTime now acc b) =
           acc_0_7 acc + (if remainingQuantity b > 0 \<and> age b \<le> 7 then remainingQuantity b else 0)"
    and "acc_8_15 (aging_step getTime now acc b) =
           acc_8_15 acc + (if remainingQuantity b > 0 \<and> 7 < age b \<and> age b \<le> 15
                           then remainingQuantity b else 0)"
    and "acc_16_30 (aging_step getTime now acc b) =
           acc_16_30 acc + (if remainingQuantity b > 0 \<and> 15 < age b \<and> age b \<le> 30
                            then remainingQuantity b else 0)"
    and "acc_30_plus (aging_step getTime now acc b) =
           acc_30_plus acc + (if remainingQuantity b > 0 \<and> 30 < age b then remainingQuantity b else 0)"
  using assms by (auto simp add: aging_step_def Let_def at_most_def)

lemma aging_fold_each:
  assumes "\<forall>b\<in>set (active bs). diffDays getTime now b = Some (age b)"
  shows "acc_0_7 (foldl (aging_step getTime now) acc bs) =
           acc_0_7 acc + grams_of (filter (\<lambda>b. age b \<le> 7) (active bs)) \<and>
         acc_8_15 (foldl (aging_step getTime now) acc bs) =
           acc_8_15 acc + grams_of (filter (\<lambda>b. 7 < age b \<and> age b \<le> 15) (active bs)) \<and>
         acc_16_30 (foldl (aging_step getTime now) acc bs) =
           acc_16_30 acc + grams_of (filter (\<lambda>b. 15 < age b \<and> age b \<le> 30) (active bs)) \<and>
         acc_30_plus (foldl (aging_step getTime now) acc bs) =
           acc_30_plus acc + grams_of (filter (\<lambda>b. 30 < age b) (active bs))"
  using assms
proof (induction bs arbitrary: acc)
  case Nil
  then show ?case by (simp add: active_def grams_of_def)
next
  case (Cons b bs)
  have h: "remainingQuantity b > 0 \<longrightarrow> diffDays getTime now b = Some (age b)"
    using Cons.prems by (auto simp: active_def)
  have r: "\<forall>b\<in>set (active bs). diffDays getTime now b = Some (age b)"
    using Cons.prems by (auto simp: active_def)
  show ?case
    using Cons.IH[OF r, of "aging_step getTime now acc b"]
      aging_step_each[where age=age and b=b and acc=acc and getTime=getTime and now=now, OF h]
    by (simp add: active_def grams_of_def)
qed

lemma sum_list_pos_real:
  "xs \<noteq> [] \<Longrightarrow> \<forall>x\<in>set xs. 0 < f x \<Longrightarrow> 0 < sum_list (map f xs)" for f :: "'a \<Rightarrow> real"
proof (induction xs)
  case Nil
  then show ?case by simp
next
  case (Cons x xs)
  then show ?case by (cases xs) (auto intro: add_pos_pos)
qed

lemma active_grams_pos: "active bs \<noteq> [] \<Longrightarrow> 0 < grams_of (active bs)"
  unfolding grams_of_def by (rule sum_list_pos_real) (simp_all add: active_def)

lemma aging_step_none:
  "totalDaysWeighted acc = None \<Longrightarrow> totalDaysWeighted (aging_step getTime now acc b) = None"
  by (simp add: aging_step_def Let_def)

lemma aging_fold_none:
  "totalDaysWeighted acc = None \<Longrightarrow>
   totalDaysWeighted (foldl (aging_step getTime now) acc bs) = None"
  by (induction bs arbitrary: acc) (simp_all add: aging_step_none)

lemma aging_step_invalid:
  "0 < remainingQuantity b \<Longrightarrow> getTime (batch_date b) = None \<Longrightarrow>
   totalDaysWeighted (aging_step getTime now acc b) = None"
  by (simp add: aging_step_def diffDays_def Let_def split: option.splits)

lemma aging_fold_invalid:
  "\<exists>b\<in>set (active bs). getTime (batch_date b) = None \<Longrightarrow>
   totalDaysWeighted (foldl (aging_step getTime now) acc bs) = None"
proof (induction bs arbitrary: acc)
  case Nil
  then show ?case by (simp add: active_def)
next
  case (Cons b bs)
  show ?case
  proof (cases "0 < remainingQuantity b \<and> getTime (batch_date b) = None")
    case True
    then have "totalDaysWeighted (aging_step getTime now acc b) = None"
      by (simp add: aging_step_invalid)
    then show ?thesis by (simp add: aging_fold_none)
  next
    case False
    then have "\<exists>b\<in>set (active bs). getTime (batch_date b) = None"
      using Cons.prems by (auto simp: active_def split: if_splits)
    then show ?thesis using Cons.IH by simp
  qed
qed

text \<open>
  C7. For every batch list the grams in the four buckets add up to the grams of the active
  batches. When the dates of the active batches are dates, with \<open>t b\<close> the time of the
  date of \<open>b\<close>, each bucket holds the grams of exactly the active batches whose age in
  days lies in its range (up to 7, above 7 up to 15, above 15 up to 30, above 30), and the
  weighted average is the grams-weighted mean of the ages of the active batches (0 when
  there is no active batch). When the date of an active batch is no date, its age is
  \<^verbatim>\<open>NaN\<close> and so is the weighted average.
\<close>

theorem aging_partition:
  "bucket_0_7 (calculateStockAging getTime now inventory) +
   bucket_8_15 (calculateStockAging getTime now inventory) +
   bucket_16_30 (calculateStockAging getTime now inventory) +
   bucket_30_plus (calculateStockAging getTime now inventory) = grams_of (active inventory) \<and>
   ((\<forall>b\<in>set (active inventory). getTime (batch_date b) = Some (t b)) \<longrightarrow>
      bucket_0_7 (calculateStockAging getTime now inventory) =
        grams_of (filter (\<lambda>b. day_age now (t b) \<le> 7) (active inventory)) \<and>
      bucket_8_15 (calculateStockAging getTime now inventory) =
        grams_of (filter (\<lambda>b. 7 < day_age now (t b) \<and> day_age now (t b) \<le> 15) (active inventory)) \<and>
      bucket_16_30 (calculateStockAging getTime now inventory) =
        grams_of (filter (\<lambda>b. 15 < day_age now (t b) \<and> day_age now (t b) \<le> 30) (active inventory)) \<and>
      bucket_30_plus (calculateStockAging getTime now inventory) =
        grams_of (filter (\<lambda>b. 30 < day_age now (t b)) (active inventory)) \<and>
      weightedAvgDays (calculateStockAging getTime now inventory) =
        Some (if active inventory = [] then 0
              else mean_age (\<lambda>b. day_age now (t b)) (active inventory))) \<and>
   ((\<exists>b\<in>set (active inventory). getTime (batch_date b) = None) \<longrightarrow>
      weightedAvgDays (calculateStockAging getTime now inventory) = None)"
proof -
  define acc0 where "acc0 = \<lparr>acc_0_7 = 0, acc_8_15 = 0, acc_16_30 = 0, acc_30_plus = 0,
                   totalDaysWeighted = Some 0, totalStock = 0\<rparr>"
  define acc where "acc = foldl (aging_step getTime now) acc0 inventory"
  have res: "calculateStockAging getTime now inventory =
      \<lparr>bucket_0_7 = acc_0_7 acc, bucket_8_15 = acc_8_15 acc,
       bucket_16_30 = acc_16_30 acc, bucket_30_plus = acc_30_plus acc,
       weightedAvgDays =
         (if totalStock acc > 0
          then map_option (\<lambda>w. w / totalStock acc) (totalDaysWeighted acc)
          else Some 0)\<rparr>"
    by (simp add: calculateStockAging_def acc_def acc0_def Let_def)
  have sum: "acc_buckets acc = grams_of (active inventory)"
    using aging_fold_buckets[of getTime now acc0 inventory]
    by (simp add: acc_def acc0_def acc_buckets_def)
  have stock: "totalStock acc = grams_of (active inventory)"
    using aging_fold_stock[of getTime now acc0 inventory] by (simp add: acc_def acc0_def)
  have part1: "bucket_0_7 (calculateStockAging getTime now inventory) +
     bucket_8_15 (calculateStockAging getTime now inventory) +
     bucket_16_30 (calculateStockAging getTime now inventory) +
     bucket_30_plus (calculateStockAging getTime now inventory) = grams_of (active inventory)"
    using sum by (simp add: res acc_buckets_def)
  have part2: "bucket_0_7 (calculateStockAging getTime now inventory) =
        grams_of (filter (\<lambda>b. day_age now (t b) \<le> 7) (active inventory)) \<and>
      bucket_8_15 (calculateStockAging getTime now inventory) =
        grams_of (filter (\<lambda>b. 7 < day_age now (t b) \<and> day_age now (t b) \<le> 15) (active inventory)) \<and>
      bucket_16_30 (calculateStockAging getTime now inventory) =
        grams_of (filter (\<lambda>b. 15 < day_age now (t b) \<and> day_age now (t b) \<le> 30) (active inventory)) \<and>
      bucket_30_plus (calculateStockAging getTime now inventory) =
        grams_of (filter (\<lambda>b. 30 < day_age now (t b)) (active inventory)) \<and>
      weightedAvgDays (calculateStockAging getTime now inventory) =
        Some (if active inventory = [] then 0
              else mean_age (\<lambda>b. day_age now (t b)) (active inventory))"
    if valid: "\<forall>b\<in>set (active inventory). getTime (batch_date b) = Some (t b)"
  proof -
    have ages: "\<forall>b\<in>set (active inventory). diffDays getTime now b = Some (day_age now (t b))"
      using valid diffDays_day_age by blast
    have each: "acc_0_7 acc = grams_of (filter (\<lambda>b. day_age now (t b) \<le> 7) (active inventory)) \<and>
      acc_8_15 acc = grams_of (filter (\<lambda>b. 7 < day_age now (t b) \<and> day_age now (t b) \<le> 15) (active inventory)) \<and>
      acc_16_30 acc = grams_of (filter (\<lambda>b. 15 < day_age now (t b) \<and> day_age now (t b) \<le> 30) (active inventory)) \<and>
      acc_30_plus acc = grams_of (filter (\<lambda>b. 30 < day_age now (t b)) (active inventory))"
      using aging_fold_each[where age="\<lambda>b. day_age now (t b)" and bs=inventory
          and getTime=getTime and now=now and acc=acc0, OF ages] by (simp add: acc_def acc0_def)
    have w: "totalDaysWeighted acc =
       Some (sum_list (map (\<lambda>b. day_age now (t b) * remainingQuantity b) (active inventory)))"
      using aging_fold_weighted[where age="\<lambda>b. day_age now (t b)" and bs=inventory
          and getTime=getTime and now=now and acc=acc0 and w=0, OF _ ages] by (simp add: acc_def acc0_def)
    have avg: "weightedAvgDays (calculateStockAging getTime now inventory) =
        Some (if active inventory = [] then 0
              else mean_age (\<lambda>b. day_age now (t b)) (active inventory))"
    proof (cases "active inventory = []")
      case True
      then show ?thesis using stock by (simp add: res grams_of_def)
    next
      case False
      then have "0 < totalStock acc" using stock active_grams_pos by simp
      then show ?thesis using False w stock by (simp add: res mean_age_def)
    qed
    show ?thesis using each avg by (simp add: res)
  qed
  have part3: "weightedAvgDays (calculateStockAging getTime now inventory) = None"
    if invalid: "\<exists>b\<in>set (active inventory). getTime (batch_date b) = None"
  proof -
    have "active inventory \<noteq> []" using invalid by auto
    then have "0 < totalStock acc" using stock active_grams_pos by simp
    moreover have "totalDaysWeighted acc = None"
      unfolding acc_def by (rule aging_fold_invalid[OF invalid])
    ultimately show ?thesis by (simp add: res)
  qed
  show ?thesis using part1 part2 part3 by blast
qed


theorem aging_partition_witness:
  "sample_getTime (batch_date (active sample_inventory ! 0))
     = Some (sample_time (active sample_inventory ! 0)) \<and>
   sample_getTime (batch_date (active sample_inventory ! 1))
     = Some (sample_time (active sample_inventory ! 1)) \<and>
   length (active sample_inventory) = 2 \<and>
   grams_of (active sample_inventory) = 10 \<and>
   bucket_0_7 (calculateStockAging sample_getTime 1706702400000 sample_inventory) +
   bucket_8_15 (calculateStockAging sample_getTime 1706702400000 sample_inventory) +
   bucket_16_30 (calculateStockAging sample_getTime 1706702400000 sample_inventory) +
   bucket_30_plus (calculateStockAging sample_getTime 1706702400000 sample_inventory) = 10 \<and>
   bucket_8_15 (calculateStockAging sample_getTime 1706702400000 sample_inventory) = 6 \<and>
   bucket_30_plus (calculateStockAging sample_getTime 1706702400000 sample_inventory) = 4 \<and>
   weightedAvgDays (calculateStockAging sample_getTime 1706702400000 sample_inventory) = Some 19 \<and>
   sample_getTime (batch_date (active undated_inventory ! 0)) = None \<and>
   weightedAvgDays (calculateStockAging sample_getTime 1706702400000 undated_inventory) = None"
proof -
  have u: "sample_getTime (batch_date (active undated_inventory ! 0)) = None" by code_simp
  have "length (active undated_inventory) = 1" by code_simp
  then have "active undated_inventory ! 0 \<in> set (active undated_inventory)" by simp
  then have "\<exists>b\<in>set (active undated_inventory). sample_getTime (batch_date b) = None"
    using u by blast
  then have n: "weightedAvgDays
      (calculateStockAging sample_getTime 1706702400000 undated_inventory) = None"
    using aging_partition[of sample_getTime 1706702400000 undated_inventory sample_time]
    by blast
  have h: "\<forall>b\<in>set (active sample_inventory). sample_getTime (batch_date b) = Some (sample_time b)"
    by code_simp
  have l: "length (active sample_inventory) = 2" by code_simp
  then have "active sample_inventory ! 0 \<in> set (active sample_inventory) \<and>
      active sample_inventory ! 1 \<in> set (active sample_inventory)" by simp
  then have h2: "sample_getTime (batch_date (active sample_inventory ! 0))
       = Some (sample_time (active sample_inventory ! 0)) \<and>
     sample_getTime (batch_date (active sample_inventory ! 1))
       = Some (sample_time (active sample_inventory ! 1))"
    using h by blast
  have g: "grams_of (active sample_inventory) = 10" by code_simp
  have b1: "grams_of (filter (\<lambda>b. 7 < day_age 1706702400000 (sample_time b) \<and>
      day_age 1706702400000 (sample_time b) \<le> 15) (active sample_inventory)) = 6" by code_simp
  have b2: "grams_of (filter (\<lambda>b. 30 < day_age 1706702400000 (sample_time b))
      (active sample_inventory)) = 4" by code_simp
  have m: "(if active sample_inventory = [] then 0
     else mean_age (\<lambda>b. day_age 1706702400000 (sample_time b)) (active sample_inventory)) = 19"
    by code_simp
  show ?thesis
    using aging_partition[of sample_getTime 1706702400000 sample_inventory sample_time]
      h h2 l g b1 b2 m u n
    by simp
qed

subsection \<open>Turnover\<close>

lemma calculateInventoryValueOnDate_returns:
  "\<exists>v. calculateInventoryValueOnDate invoices targetDate = Some v"
  using getInventorySnapshot_returns[of invoices targetDate]
  by (auto simp: calculateInventoryValueOnDate_def)

text \<open>
  C8, as the code has it. The turnover computation always returns. Its ratio is 0 whenever
  the average inventory value is not positive and its average days-to-sell is 0 whenever
  the ratio is not positive. The ratio is never the result of a division by zero. The
  average days-to-sell is a finite number except in one case: it is \<^verbatim>\<open>NaN\<close> exactly when
  the ratio is positive and the start or the end of the window is a string that the date
  parser does not accept.
\<close>

theorem turnover_guards:
  "\<exists>r. calculateTurnoverStats getTime invoices startDate endDate = Some r \<and>
     (avgInventoryValue r \<le> 0 \<longrightarrow> turnoverRatio r = Some 0) \<and>
     (\<forall>x. turnoverRatio r = Some x \<and> x \<le> 0 \<longrightarrow> avgDaysToSell r = Some 0) \<and>
     turnoverRatio r \<noteq> None \<and>
     (avgDaysToSell r = None \<longleftrightarrow>
        (\<exists>x. turnoverRatio r = Some x \<and> 0 < x) \<and>
        (getTime startDate = None \<or> getTime endDate = None))"
proof -
  obtain sv where sv: "calculateInventoryValueOnDate invoices startDate = Some sv"
    using calculateInventoryValueOnDate_returns by blast
  obtain ev where ev: "calculateInventoryValueOnDate invoices endDate = Some ev"
    using calculateInventoryValueOnDate_returns by blast
  define c where "c = foldl (\<lambda>acc s. acc + (case cogs s of None \<Rightarrow> 0 | Some c \<Rightarrow> c)) 0
     (filter (\<lambda>i. inv_type i = SALE)
        (filter (\<lambda>i. date i \<ge> startDate \<and> date i \<le> endDate) invoices))"
  define avg where "avg = (sv + ev) / 2"
  define ratio where "ratio = (if avg > 0 then checked_div c avg else Some 0)"
  define days where "days = (case (getTime endDate, getTime startDate) of
                       (Some e, Some s) \<Rightarrow> Some (max 1 ((e - s) / (1000 * 3600 * 24)))
                     | _ \<Rightarrow> None)"
  define avgDays where "avgDays = (case ratio of
                       None \<Rightarrow> None
                     | Some r \<Rightarrow>
                         if r > 0
                         then (case days of None \<Rightarrow> None | Some d \<Rightarrow> checked_div d r)
                         else Some 0)"
  have res: "calculateTurnoverStats getTime invoices startDate endDate =
      Some \<lparr>turnoverRatio = ratio, avgDaysToSell = avgDays,
            avgInventoryValue = avg, periodCOGS = c\<rparr>"
    unfolding calculateTurnoverStats_def Let_def sv ev c_def avg_def ratio_def days_def avgDays_def
    by simp
  have r1: "avg \<le> 0 \<longrightarrow> ratio = Some 0" by (simp add: ratio_def)
  have r2: "ratio \<noteq> None" by (simp add: ratio_def checked_div_def)
  have r3: "\<forall>x. ratio = Some x \<and> x \<le> 0 \<longrightarrow> avgDays = Some 0" by (auto simp: avgDays_def)
  have d: "days = None \<longleftrightarrow> getTime startDate = None \<or> getTime endDate = None"
    by (cases "getTime startDate"; cases "getTime endDate") (simp_all add: days_def)
  have r4: "avgDays = None \<longleftrightarrow> (\<exists>x. ratio = Some x \<and> 0 < x) \<and> days = None"
  proof (cases ratio)
    case None
    then show ?thesis using r2 by simp
  next
    case (Some x)
    then show ?thesis by (cases days) (auto simp: avgDays_def checked_div_def)
  qed
  show ?thesis using res r1 r2 r3 r4 d by simp
qed

theorem turnover_guards_witness:
  "(\<exists>r. calculateTurnoverStats sample_getTime [] ''2024-01-01'' ''2024-01-31'' = Some r \<and>
      avgInventoryValue r \<le> 0 \<and> turnoverRatio r = Some 0 \<and> avgDaysToSell r = Some 0) \<and>
   (\<exists>r. calculateTurnoverStats sample_getTime (updatedInvoices (recalculateAllData scenario_a_ledger))
          ''2024-01-01'' ''2024-01-31'' = Some r \<and>
      turnoverRatio r \<noteq> None \<and> avgDaysToSell r \<noteq> None)"
proof -
  define L where "L = updatedInvoices (recalculateAllData scenario_a_ledger)"
  define s where "s = ''2024-01-01''"
  define e where "e = ''2024-01-31''"
  have v: "sample_getTime s \<noteq> None \<and> sample_getTime e \<noteq> None"
    by (simp add: s_def e_def sample_getTime_def)
  have a0: "map_option avgInventoryValue (calculateTurnoverStats sample_getTime [] s e) = Some 0"
    unfolding s_def e_def by code_simp
  obtain r where r: "calculateTurnoverStats sample_getTime [] s e = Some r"
    and g1: "avgInventoryValue r \<le> 0 \<longrightarrow> turnoverRatio r = Some 0"
    and g2: "\<forall>x. turnoverRatio r = Some x \<and> x \<le> 0 \<longrightarrow> avgDaysToSell r = Some 0"
    using turnover_guards[of sample_getTime "[]" s e] by blast
  have "avgInventoryValue r \<le> 0" using a0 r by simp
  then have first: "\<exists>r. calculateTurnoverStats sample_getTime [] s e = Some r \<and>
      avgInventoryValue r \<le> 0 \<and> turnoverRatio r = Some 0 \<and> avgDaysToSell r = Some 0"
    using r g1 g2 by simp
  have second: "\<exists>r. calculateTurnoverStats sample_getTime L s e = Some r \<and>
     turnoverRatio r \<noteq> None \<and> avgDaysToSell r \<noteq> None"
    using turnover_guards[of sample_getTime L s e] v by blast
  show ?thesis using first second by (simp add: L_def s_def e_def)
qed

text \<open>
  The claim as worded fails on a window whose start is the empty string: the ratio is 4/3
  and the average days-to-sell is \<^verbatim>\<open>NaN\<close>.
\<close>

theorem turnover_nan_days:
  "map_option turnoverRatio (calculateTurnoverStats sample_getTime
      (updatedInvoices (recalculateAllData scenario_a_ledger)) [] ''2024-01-31'') = Some (Some (4 / 3)) \<and>
   map_option avgDaysToSell (calculateTurnoverStats sample_getTime
      (updatedInvoices (recalculateAllData scenario_a_ledger)) [] ''2024-01-31'') = Some None"
  by code_simp

subsection \<open>The snapshot engine against the replay engine\<close>

lemma on_grid_nonneg: "0 < g \<Longrightarrow> on_grid g x \<Longrightarrow> 0 \<le> x"
  by (auto simp: on_grid_def)

lemma on_grid_pos_ge: "0 < g \<Longrightarrow> on_grid g x \<Longrightarrow> 0 < x \<Longrightarrow> g \<le> x"
proof -
  assume g: "0 < g" and x: "on_grid g x" and p: "0 < x"
  obtain k :: nat where k: "x = real k * g" using x by (auto simp: on_grid_def)
  have "k \<noteq> 0"
  proof
    assume "k = 0"
    then have "x = 0" using k by simp
    then show False using p by simp
  qed
  then have "1 \<le> real k" by simp
  then have "1 * g \<le> real k * g" using g by (intro mult_right_mono) simp_all
  then show ?thesis using k by simp
qed

lemma on_grid_diff: "0 < g \<Longrightarrow> on_grid g x \<Longrightarrow> on_grid g y \<Longrightarrow> y \<le> x \<Longrightarrow> on_grid g (x - y)"
proof -
  assume g: "0 < g" and x: "on_grid g x" and y: "on_grid g y" and le: "y \<le> x"
  obtain k :: nat where k: "x = real k * g" using x by (auto simp: on_grid_def)
  obtain j :: nat where j: "y = real j * g" using y by (auto simp: on_grid_def)
  have "real j \<le> real k" using le k j g by simp
  then have "j \<le> k" by simp
  then have "x - y = real (k - j) * g" using k j by (simp add: of_nat_diff left_diff_distrib)
  then show ?thesis by (auto simp: on_grid_def)
qed

lemma on_grid_zero: "on_grid g 0"
  by (auto simp: on_grid_def intro: exI[of _ 0])

lemma on_grid_small: "1/10000 < g \<Longrightarrow> on_grid g x \<Longrightarrow> \<not> x > 0.0001 \<Longrightarrow> x = 0"
  using on_grid_pos_ge[of g x] on_grid_nonneg[of g x] by (cases "0 < x") auto

lemma on_grid_big: "1/10000 < g \<Longrightarrow> on_grid g x \<Longrightarrow> 0 < x \<Longrightarrow> x > 0.0001"
  using on_grid_pos_ge[of g x] by auto

lemma sell_while_done: "\<not> sell_cond s \<Longrightarrow> sell_while s = Some (snd s)"
  by (subst sell_while.simps) simp

lemma sell_while_step: "sell_cond s \<Longrightarrow> sell_while s = sell_while (sell_body s)"
  by (subst sell_while.simps) simp

lemma consume_loop_nothing: "remainingToSell st \<le> 0 \<Longrightarrow> consume_loop d B st = (B, st)"
  by (cases B) simp_all

lemma view_Cons:
  "view (b # B) = (if remainingQuantity b > 0
     then \<lparr>quantity = remainingQuantity b, cost = costPerGram b\<rparr> # view B else view B)"
  by (simp add: view_def active_def)

lemma grams_of_Cons: "grams_of (b # B) = remainingQuantity b + grams_of B"
  by (simp add: grams_of_def)

lemma consume_loop_sim:
  assumes g: "1/10000 < g"
    and B: "\<forall>b\<in>set B. on_grid g (remainingQuantity b)"
    and n: "on_grid g (remainingToSell st)"
  shows "sell_while (remainingToSell st, view B) = Some (view (fst (consume_loop d B st))) \<and>
         (\<forall>b\<in>set (fst (consume_loop d B st)). on_grid g (remainingQuantity b)) \<and>
         on_grid g (remainingToSell (snd (consume_loop d B st))) \<and>
         grams_of (fst (consume_loop d B st)) + remainingToSell st =
           grams_of B + remainingToSell (snd (consume_loop d B st))"
  using B n
proof (induction B arbitrary: st)
  case Nil
  then show ?case by (simp add: sell_while_done sell_cond_def view_def active_def)
next
  case (Cons b B)
  have g0: "0 < g" using g by simp
  have gb: "on_grid g (remainingQuantity b)" and gB: "\<forall>b\<in>set B. on_grid g (remainingQuantity b)"
    using Cons.prems(1) by simp_all
  have gn: "on_grid g (remainingToSell st)" using Cons.prems(2) .
  show ?case
  proof (cases "remainingToSell st \<le> 0")
    case True
    then have "\<not> sell_cond (remainingToSell st, view (b # B))" by (simp add: sell_cond_def)
    then show ?thesis using True Cons.prems
      by (simp add: sell_while_done consume_loop_nothing)
  next
    case False
    then have npos: "0 < remainingToSell st" by simp
    then have nbig: "remainingToSell st > 0.000001"
      using on_grid_big[OF g gn] by simp
    show ?thesis
    proof (cases "remainingQuantity b > 0.0001")
      case isopen: True
      then have bpos: "0 < remainingQuantity b" by simp
      have cond: "sell_cond (remainingToSell st, view (b # B))"
        using nbig bpos by (simp add: sell_cond_def view_Cons)
      show ?thesis
      proof (cases "remainingQuantity b > remainingToSell st")
        case True
        define b1 where "b1 = b\<lparr>remainingQuantity := remainingQuantity b - remainingToSell st\<rparr>"
        define st1 where "st1 = st\<lparr>remainingToSell := 0,
            totalCOGS := totalCOGS st + remainingToSell st * costPerGram b,
            consumptionLog := consumptionLog st @
              [Consumed (remainingToSell st) (batch_date b) (costPerGram b)]\<rparr>"
        have gd: "on_grid g (remainingQuantity b - remainingToSell st)"
          using on_grid_diff[OF g0 gb gn] True by simp
        have dpos: "0 < remainingQuantity b - remainingToSell st" using True by simp
        then have dbig: "\<not> remainingQuantity b - remainingToSell st < 0.0001"
          using on_grid_big[OF g gd] by simp
        have run: "consume_loop d (b # B) st = (b1 # B, st1)"
          using False isopen True dbig
          by (simp add: Let_def min_def consume_loop_nothing b1_def st1_def)
        have "sell_while (remainingToSell st, view (b # B)) =
            sell_while (0, \<lparr>quantity = remainingQuantity b - remainingToSell st,
                             cost = costPerGram b\<rparr> # view B)"
          using True bpos by (subst sell_while_step[OF cond]) (simp add: view_Cons)
        also have "\<dots> = Some (\<lparr>quantity = remainingQuantity b - remainingToSell st,
                             cost = costPerGram b\<rparr> # view B)"
          by (simp add: sell_while_done sell_cond_def)
        also have "\<dots> = Some (view (b1 # B))" using dpos by (simp add: view_Cons b1_def)
        finally have s: "sell_while (remainingToSell st, view (b # B)) = Some (view (b1 # B))" .
        show ?thesis using s run gd gB
          by (simp add: b1_def st1_def on_grid_zero grams_of_Cons)
      next
        case False2: False
        define b2 where "b2 = b\<lparr>remainingQuantity := 0, closedDate := Some d\<rparr>"
        define st1 where "st1 = st\<lparr>remainingToSell := remainingToSell st - remainingQuantity b,
            totalCOGS := totalCOGS st + remainingQuantity b * costPerGram b,
            consumptionLog := consumptionLog st @
              [Consumed (remainingQuantity b) (batch_date b) (costPerGram b)]\<rparr>"
        have gd: "on_grid g (remainingToSell st1)"
          using on_grid_diff[OF g0 gn gb] False2 by (simp add: st1_def)
        note IH = Cons.IH[OF gB gd]
        have run: "consume_loop d (b # B) st =
            (b2 # fst (consume_loop d B st1), snd (consume_loop d B st1))"
          using False isopen False2
          by (simp add: Let_def min_def b2_def st1_def split_beta)
        have "sell_while (remainingToSell st, view (b # B)) =
            sell_while (remainingToSell st1, view B)"
          using False2 bpos by (subst sell_while_step[OF cond]) (simp add: view_Cons st1_def)
        also have "\<dots> = Some (view (fst (consume_loop d B st1)))" using IH by simp
        also have "\<dots> = Some (view (b2 # fst (consume_loop d B st1)))"
          by (simp add: view_Cons b2_def)
        finally have s: "sell_while (remainingToSell st, view (b # B)) =
            Some (view (b2 # fst (consume_loop d B st1)))" .
        have m: "grams_of (fst (consume_loop d B st1)) + remainingToSell st1 =
           grams_of B + remainingToSell (snd (consume_loop d B st1))" using IH by simp
        show ?thesis using s run IH m
          by (simp add: b2_def on_grid_zero grams_of_Cons st1_def)
      qed
    next
      case closed: False
      then have bz: "remainingQuantity b = 0" using on_grid_small[OF g gb] by simp
      note IH = Cons.IH[OF gB gn]
      have run: "consume_loop d (b # B) st =
          (b # fst (consume_loop d B st), snd (consume_loop d B st))"
        using False closed by (simp add: split_beta)
      show ?thesis using run IH bz gb
        by (simp add: view_Cons grams_of_Cons)
    qed
  qed
qed

lemma signed_sum_Cons:
  "signed_sum (tx # txs) =
     (if inv_type tx = PURCHASE then quantityGrams tx else - quantityGrams tx) + signed_sum txs"
  by (simp add: signed_sum_def)

lemma snapshot_loop_total:
  "snapshot_loop txs S T = Some (S', T') \<Longrightarrow> T' = T + signed_sum txs"
proof (induction txs arbitrary: S T)
  case Nil
  then show ?case by (simp add: signed_sum_def)
next
  case (Cons tx txs)
  show ?case
  proof (cases "inv_type tx = PURCHASE")
    case True
    then have "snapshot_loop txs (S @ [\<lparr>quantity = quantityGrams tx, cost = ratePerGram tx\<rparr>])
        (T + quantityGrams tx) = Some (S', T')"
      using Cons.prems by simp
    from Cons.IH[OF this] show ?thesis using True by (simp add: signed_sum_Cons)
  next
    case False
    then obtain S1 where "sell_while (quantityGrams tx, S) = Some S1"
      and "snapshot_loop txs S1 (T - quantityGrams tx) = Some (S', T')"
      using Cons.prems by (auto split: option.splits)
    from Cons.IH[OF this(2)] show ?thesis using False by (simp add: signed_sum_Cons)
  qed
qed

lemma replay_loop_prefix: "set acc \<subseteq> set (fst (replay_loop txs B acc))"
proof (induction txs arbitrary: B acc)
  case Nil
  then show ?case by simp
next
  case (Cons tx txs)
  have "set (acc @ [snd (process_invoice tx B)])
      \<subseteq> set (fst (replay_loop txs (fst (process_invoice tx B)) (acc @ [snd (process_invoice tx B)])))"
    by (rule Cons.IH)
  then show ?case by (simp add: split_beta)
qed

lemma process_sale_start:
  "fst (process_sale tx B) = fst (consume_loop (date tx) B (sale_start tx)) \<and>
   fifoLog (snd (process_sale tx B)) =
     Some (if remainingToSell (snd (consume_loop (date tx) B (sale_start tx))) > 0.0001
           then consumptionLog (snd (consume_loop (date tx) B (sale_start tx))) @
                  [StockoutWarning (remainingToSell (snd (consume_loop (date tx) B (sale_start tx))))]
           else consumptionLog (snd (consume_loop (date tx) B (sale_start tx))))"
  by (simp add: process_sale_def sale_start_def Let_def split_beta)

lemma process_sale_flag:
  "no_stockout (snd (process_sale tx B)) \<Longrightarrow>
   \<not> remainingToSell (snd (consume_loop (date tx) B (sale_start tx))) > 0.0001"
  using process_sale_start[of tx B] by (auto simp: no_stockout_def)

lemma view_append_purchase:
  "0 < q \<Longrightarrow>
   view (B @ [\<lparr>batch_id = i, batch_date = d, originalQuantity = q, remainingQuantity = q,
               costPerGram = c, closedDate = None\<rparr>]) = view B @ [\<lparr>quantity = q, cost = c\<rparr>]"
  by (simp add: view_def active_def)

lemma replay_snapshot_sim:
  assumes g: "1/10000 < g"
    and q: "\<forall>tx\<in>set txs. on_grid g (quantityGrams tx) \<and> 0 < quantityGrams tx"
    and B: "\<forall>b\<in>set B. on_grid g (remainingQuantity b)"
  shows "(\<exists>T'. snapshot_loop txs (view B) T = Some (view (snd (replay_loop txs B acc)), T')) \<and>
         (\<forall>b\<in>set (snd (replay_loop txs B acc)). on_grid g (remainingQuantity b))"
  using q B
proof (induction txs arbitrary: B acc T)
  case Nil
  then show ?case by simp
next
  case (Cons tx txs)
  have qs: "\<forall>tx\<in>set txs. on_grid g (quantityGrams tx) \<and> 0 < quantityGrams tx"
    and qt: "on_grid g (quantityGrams tx)" and qp: "0 < quantityGrams tx"
    using Cons.prems(1) by simp_all
  show ?case
  proof (cases "inv_type tx = PURCHASE")
    case True
    define B' where "B' = B @ [\<lparr>batch_id = inv_id tx, batch_date = date tx,
                      originalQuantity = quantityGrams tx,
                      remainingQuantity = quantityGrams tx,
                      costPerGram = ratePerGram tx, closedDate = None\<rparr>]"
    have gB': "\<forall>b\<in>set B'. on_grid g (remainingQuantity b)"
      using Cons.prems(2) qt by (simp add: B'_def)
    have v: "view B' = view B @ [\<lparr>quantity = quantityGrams tx, cost = ratePerGram tx\<rparr>]"
      unfolding B'_def by (rule view_append_purchase[OF qp])
    have step: "fst (process_invoice tx B) = B'"
      using True by (simp add: process_invoice_def process_purchase_def B'_def)
    obtain T' where r: "snapshot_loop txs (view B') (T + quantityGrams tx) =
        Some (view (snd (replay_loop txs B' (acc @ [snd (process_invoice tx B)]))), T')"
      and gr: "\<forall>b\<in>set (snd (replay_loop txs B' (acc @ [snd (process_invoice tx B)]))).
                 on_grid g (remainingQuantity b)"
      using Cons.IH[OF qs gB', of "T + quantityGrams tx" "acc @ [snd (process_invoice tx B)]"]
      by blast
    have rl: "replay_loop (tx # txs) B acc =
        replay_loop txs B' (acc @ [snd (process_invoice tx B)])"
      using step by (simp add: split_beta)
    have sl: "snapshot_loop (tx # txs) (view B) T =
        snapshot_loop txs (view B') (T + quantityGrams tx)"
      using True v by simp
    show ?thesis unfolding rl sl using r gr by blast
  next
    case False
    define B' where "B' = fst (consume_loop (date tx) B (sale_start tx))"
    have n: "on_grid g (remainingToSell (sale_start tx))" using qt by (simp add: sale_start_def)
    have sim: "sell_while (quantityGrams tx, view B) = Some (view B')"
      and gB': "\<forall>b\<in>set B'. on_grid g (remainingQuantity b)"
      using consume_loop_sim[OF g Cons.prems(2) n, of "date tx"]
      by (simp_all add: B'_def sale_start_def)
    have step: "fst (process_invoice tx B) = B'"
      using False process_sale_start[of tx B] by (simp add: process_invoice_def B'_def)
    obtain T' where r: "snapshot_loop txs (view B') (T - quantityGrams tx) =
        Some (view (snd (replay_loop txs B' (acc @ [snd (process_invoice tx B)]))), T')"
      and gr: "\<forall>b\<in>set (snd (replay_loop txs B' (acc @ [snd (process_invoice tx B)]))).
                 on_grid g (remainingQuantity b)"
      using Cons.IH[OF qs gB', of "T - quantityGrams tx" "acc @ [snd (process_invoice tx B)]"]
      by blast
    have rl: "replay_loop (tx # txs) B acc =
        replay_loop txs B' (acc @ [snd (process_invoice tx B)])"
      using step by (simp add: split_beta)
    have sl: "snapshot_loop (tx # txs) (view B) T =
        snapshot_loop txs (view B') (T - quantityGrams tx)"
      using False sim by simp
    show ?thesis unfolding rl sl using r gr by blast
  qed
qed

lemma grams_of_append: "grams_of (B @ C) = grams_of B + grams_of C"
  by (simp add: grams_of_def)

lemma replay_grams:
  assumes g: "1/10000 < g"
    and q: "\<forall>tx\<in>set txs. on_grid g (quantityGrams tx) \<and> 0 < quantityGrams tx"
    and B: "\<forall>b\<in>set B. on_grid g (remainingQuantity b)"
    and ns: "\<forall>p\<in>set (fst (replay_loop txs B acc)). no_stockout p"
  shows "grams_of (snd (replay_loop txs B acc)) = grams_of B + signed_sum txs"
  using q B ns
proof (induction txs arbitrary: B acc)
  case Nil
  then show ?case by (simp add: signed_sum_def)
next
  case (Cons tx txs)
  have qs: "\<forall>tx\<in>set txs. on_grid g (quantityGrams tx) \<and> 0 < quantityGrams tx"
    and qt: "on_grid g (quantityGrams tx)"
    using Cons.prems(1) by simp_all
  define B' where "B' = fst (process_invoice tx B)"
  define tx' where "tx' = snd (process_invoice tx B)"
  have rl: "replay_loop (tx # txs) B acc = replay_loop txs B' (acc @ [tx'])"
    by (simp add: split_beta B'_def tx'_def)
  have ns': "\<forall>p\<in>set (fst (replay_loop txs B' (acc @ [tx']))). no_stockout p"
    using Cons.prems(3) rl by simp
  have "tx' \<in> set (fst (replay_loop txs B' (acc @ [tx'])))"
    using replay_loop_prefix[of "acc @ [tx']" txs B'] by auto
  then have flag: "no_stockout tx'" using ns' by blast
  have step: "(\<forall>b\<in>set B'. on_grid g (remainingQuantity b)) \<and>
      grams_of B' = grams_of B +
        (if inv_type tx = PURCHASE then quantityGrams tx else - quantityGrams tx)"
  proof (cases "inv_type tx = PURCHASE")
    case True
    then show ?thesis using Cons.prems(2) qt
      by (simp add: B'_def process_invoice_def process_purchase_def grams_of_append grams_of_def)
  next
    case False
    have n: "on_grid g (remainingToSell (sale_start tx))" using qt by (simp add: sale_start_def)
    have b: "B' = fst (consume_loop (date tx) B (sale_start tx))"
      using False process_sale_start[of tx B] by (simp add: B'_def process_invoice_def)
    have "tx' = snd (process_sale tx B)" using False by (simp add: tx'_def process_invoice_def)
    then have nof: "\<not> remainingToSell (snd (consume_loop (date tx) B (sale_start tx))) > 0.0001"
      using flag process_sale_flag by simp
    note sim = consume_loop_sim[OF g Cons.prems(2) n, of "date tx"]
    have "remainingToSell (snd (consume_loop (date tx) B (sale_start tx))) = 0"
      using on_grid_small[OF g _ nof] sim by blast
    then show ?thesis using sim False b by (simp add: sale_start_def)
  qed
  have "grams_of (snd (replay_loop txs B' (acc @ [tx']))) = grams_of B' + signed_sum txs"
    using Cons.IH[OF qs _ ns'] step by blast
  then show ?case unfolding rl using step by (simp add: signed_sum_Cons)
qed

lemma value_view:
  "\<forall>b\<in>set B. 0 \<le> remainingQuantity b \<Longrightarrow>
   sum_list (map (\<lambda>b. quantity b * cost b) (view B)) =
   sum_list (map (\<lambda>b. remainingQuantity b * costPerGram b) B)"
proof (induction B)
  case Nil
  then show ?case by (simp add: view_def active_def)
next
  case (Cons b B)
  then show ?case by (cases "0 < remainingQuantity b") (auto simp: view_Cons)
qed

text \<open>
  In exact arithmetic the two engines agree on every grid of quantities whose unit is above
  the threshold 0.0001: the snapshot's value is the live value, and its grams are the live
  stock when the replay wrote no stockout warning.
\<close>

lemma snapshot_replay_on_grid:
  assumes g: "1/10000 < g"
    and quantities: "\<forall>tx\<in>set invoices. \<exists>k>0. quantityGrams tx = real k * g"
    and cutoff: "\<forall>tx\<in>set invoices. date tx \<le> cutoff"
  shows "\<exists>r. getInventorySnapshot invoices cutoff = Some r \<and>
     totalValue r = fifoValueOf (updatedInventory (recalculateAllData invoices)) \<and>
     ((\<forall>p\<in>set (updatedInvoices (recalculateAllData invoices)). no_stockout p) \<longrightarrow>
        grams r = currentStockOf (updatedInventory (recalculateAllData invoices)))"
proof -
  define sorted where "sorted = array_sort compareInvoices invoices"
  define Bf where "Bf = snd (replay_loop sorted [] [])"
  have g0: "0 < g" using g by simp
  have rel: "filter (\<lambda>tx. date tx \<le> cutoff) invoices = invoices"
    using cutoff by (simp add: filter_id_conv)
  have q: "\<forall>tx\<in>set sorted. on_grid g (quantityGrams tx) \<and> 0 < quantityGrams tx"
  proof
    fix tx assume "tx \<in> set sorted"
    then have "tx \<in> set invoices" by (simp add: sorted_def set_array_sort)
    then obtain k :: nat where k: "0 < k" "quantityGrams tx = real k * g"
      using quantities by blast
    then show "on_grid g (quantityGrams tx) \<and> 0 < quantityGrams tx"
      using g0 by (auto simp: on_grid_def)
  qed
  have e: "\<forall>b\<in>set ([]::InventoryBatch list). on_grid g (remainingQuantity b)" by simp
  obtain T' where run: "snapshot_loop sorted (view []) 0 = Some (view Bf, T')"
    and gB: "\<forall>b\<in>set Bf. on_grid g (remainingQuantity b)"
    using replay_snapshot_sim[OF g q e, of 0 "[]"] unfolding Bf_def by blast
  have v0: "view [] = []" by (simp add: view_def active_def)
  have T': "T' = signed_sum sorted" using snapshot_loop_total[OF run] by simp
  have nn: "\<forall>b\<in>set Bf. 0 \<le> remainingQuantity b" using gB on_grid_nonneg[OF g0] by blast
  have inv: "updatedInventory (recalculateAllData invoices) = Bf"
    by (simp add: recalculateAllData_def Let_def split_beta Bf_def sorted_def)
  have upd: "updatedInvoices (recalculateAllData invoices) = fst (replay_loop sorted [] [])"
    by (simp add: recalculateAllData_def Let_def split_beta sorted_def)
  have snap: "getInventorySnapshot invoices cutoff =
      Some \<lparr>grams = max 0 T',
            totalValue = foldl (\<lambda>sum batch. sum + quantity batch * cost batch) 0 (view Bf)\<rparr>"
    using run by (simp add: getInventorySnapshot_def rel sorted_def[symmetric] v0)
  have val: "foldl (\<lambda>sum batch. sum + quantity batch * cost batch) 0 (view Bf) = fifoValueOf Bf"
    using value_view[OF nn] by (simp add: foldl_plus_sum_list fifoValueOf_sum)
  have gr: "max 0 T' = currentStockOf Bf"
    if ns: "\<forall>p\<in>set (fst (replay_loop sorted [] [])). no_stockout p"
  proof -
    have "grams_of Bf = grams_of [] + signed_sum sorted"
      unfolding Bf_def by (rule replay_grams[OF g q e ns])
    then have eq: "grams_of Bf = T'" using T' by (simp add: grams_of_def)
    have "0 \<le> grams_of Bf" unfolding grams_of_def using nn by (intro sum_list_nonneg) auto
    then show ?thesis using eq by (simp add: currentStockOf_sum grams_of_def)
  qed
  show ?thesis using snap val gr by (simp add: inv upd)
qed

text \<open>
  C1, as the code has it. The program computes in binary floating point, where sums and
  differences of quantities are exact only on a binary grid; decimal quantities such as
  0.1 g, 0.2 g and 0.3 g are not on one, and there rounding can leave the snapshot a residue
  that the replay sets to 0. So let the unit be a binary fraction of a gram,
  \<open>1 / 2 ^ j\<close> with \<open>j \<le> 13\<close> (whole grams for \<open>j = 0\<close>; the finest such unit, 1/8192 g, is
  still above the threshold 0.0001), let every quantity be a positive whole number of units
  and all quantities together at most \<open>2 ^ 53\<close> units, so that every quantity either engine
  computes is a whole number of units that a double holds exactly, and let the cutoff be at
  or after every transaction date, as the latest transaction date is. Then the snapshot
  engine returns a result whose value is the live value of the replay's batch list (both
  add the same products in the same order, the emptied batches of the replay adding 0),
  and whose grams are the live stock provided the replay wrote no stockout warning.
\<close>

theorem snapshot_matches_replay:
  assumes j: "j \<le> 13"
    and quantities: "\<forall>tx\<in>set invoices. \<exists>k>0. quantityGrams tx = real k / 2 ^ j"
    and total: "sum_list (map quantityGrams invoices) * 2 ^ j \<le> 2 ^ 53"
    and cutoff: "\<forall>tx\<in>set invoices. date tx \<le> cutoff"
  shows "\<exists>r. getInventorySnapshot invoices cutoff = Some r \<and>
     totalValue r = fifoValueOf (updatedInventory (recalculateAllData invoices)) \<and>
     ((\<forall>p\<in>set (updatedInvoices (recalculateAllData invoices)). no_stockout p) \<longrightarrow>
        grams r = currentStockOf (updatedInventory (recalculateAllData invoices)))"
proof -
  define g :: real where "g = 1 / 2 ^ j"
  have "(2::real) ^ j \<le> 2 ^ 13" using j by (intro power_increasing) simp_all
  then have p: "(2::real) ^ j < 10000" by simp
  have pos: "(0::real) < 2 ^ j" by simp
  have g: "1/10000 < g"
    unfolding g_def using p pos by (simp add: field_simps)
  have q: "\<forall>tx\<in>set invoices. \<exists>k>0. quantityGrams tx = real k * g"
    using quantities by (simp add: g_def)
  show ?thesis by (rule snapshot_replay_on_grid[OF g q cutoff])
qed

theorem snapshot_matches_replay_witness:
  "(0::nat) \<le> 13 \<and>
   quantityGrams (scenario_a_ledger ! 0) = real 100 / 2 ^ 0 \<and>
   quantityGrams (scenario_a_ledger ! 1) = real 40 / 2 ^ 0 \<and>
   sum_list (map quantityGrams scenario_a_ledger) * 2 ^ 0 \<le> 2 ^ 53 \<and>
   date (scenario_a_ledger ! 0) \<le> ''2024-01-05'' \<and>
   date (scenario_a_ledger ! 1) \<le> ''2024-01-05'' \<and>
   no_stockout (updatedInvoices (recalculateAllData scenario_a_ledger) ! 0) \<and>
   no_stockout (updatedInvoices (recalculateAllData scenario_a_ledger) ! 1) \<and>
   (\<exists>r. getInventorySnapshot scenario_a_ledger ''2024-01-05'' = Some r \<and>
      totalValue r = 360000 \<and> grams r = 60)"
proof -
  have j: "(0::nat) \<le> 13" by simp
  have "(\<exists>k>0. (100::real) = real k) \<and> (\<exists>k>0. (40::real) = real k)"
    using exI[of "\<lambda>k. 0 < k \<and> (100::real) = real k" 100]
      exI[of "\<lambda>k. 0 < k \<and> (40::real) = real k" 40] by simp
  then have q: "\<forall>tx\<in>set scenario_a_ledger. \<exists>k>0. quantityGrams tx = real k / 2 ^ 0"
    by (simp add: scenario_a_ledger_def sample_invoice_def)
  have t: "sum_list (map quantityGrams scenario_a_ledger) * 2 ^ 0 \<le> 2 ^ 53"
    by (simp add: scenario_a_ledger_def sample_invoice_def)
  have c: "\<forall>tx\<in>set scenario_a_ledger. date tx \<le> ''2024-01-05''" by code_simp
  have ns: "\<forall>p\<in>set (updatedInvoices (recalculateAllData scenario_a_ledger)). no_stockout p"
    by code_simp
  have v: "fifoValueOf (updatedInventory (recalculateAllData scenario_a_ledger)) = 360000"
    by code_simp
  have s: "currentStockOf (updatedInventory (recalculateAllData scenario_a_ledger)) = 60"
    by code_simp
  have e: "\<exists>r. getInventorySnapshot scenario_a_ledger ''2024-01-05'' = Some r \<and>
      totalValue r = 360000 \<and> grams r = 60"
    using snapshot_matches_replay[OF j q t c] ns v s by auto
  have q2: "quantityGrams (scenario_a_ledger ! 0) = real 100 / 2 ^ 0 \<and>
     quantityGrams (scenario_a_ledger ! 1) = real 40 / 2 ^ 0"
    by (simp add: scenario_a_ledger_def sample_invoice_def)
  have c2: "date (scenario_a_ledger ! 0) \<le> ''2024-01-05'' \<and>
     date (scenario_a_ledger ! 1) \<le> ''2024-01-05''" by code_simp
  have ns2: "no_stockout (updatedInvoices (recalculateAllData scenario_a_ledger) ! 0) \<and>
     no_stockout (updatedInvoices (recalculateAllData scenario_a_ledger) ! 1)" by code_simp
  show ?thesis using j t e q2 c2 ns2 by blast
qed

text \<open>
  The claim as worded fails after a stockout: with 10 g bought, 15 g sold and 5 g bought,
  at the latest date the replay holds 5 g while the snapshot reports 0 g, its running total
  having gone to -5 before the last purchase.
\<close>

theorem snapshot_after_stockout:
  "getInventorySnapshot restock_ledger ''2024-01-03'' = Some \<lparr>grams = 0, totalValue = 30500\<rparr> \<and>
   currentStockOf (updatedInventory (recalculateAllData restock_ledger)) = 5 \<and>
   fifoValueOf (updatedInventory (recalculateAllData restock_ledger)) = 30500"
  by code_simp

text \<open>
  It also fails without a stockout when a subtraction leaves a residue under the
  threshold: the replay sets it to 0, the snapshot keeps it.
\<close>

lemma snapshot_keeps_residue:
  "getInventorySnapshot tiny_residue_ledger ''2024-01-02'' =
     Some \<lparr>grams = 0.00005, totalValue = 0.3\<rparr> \<and>
   currentStockOf (updatedInventory (recalculateAllData tiny_residue_ledger)) = 0 \<and>
   fifoValueOf (updatedInventory (recalculateAllData tiny_residue_ledger)) = 0"
  by code_simp

subsection \<open>Running the replay twice\<close>

lemma consume_loop_draw:
  "consume_loop d (batch # rest) st =
     (if remainingToSell st \<le> 0 then (batch # rest, st)
      else if remainingQuantity batch > 0.0001 then
        (fst (draw d batch st) # fst (consume_loop d rest (snd (draw d batch st))),
         snd (consume_loop d rest (snd (draw d batch st))))
      else (batch # fst (consume_loop d rest st), snd (consume_loop d rest st)))"
  by (simp add: draw_def Let_def split_beta)

lemma consume_loop_heap_refines:
  "m \<le> length h \<Longrightarrow>
   consume_loop_heap d [m..<length h] h st =
     (take m h @ fst (consume_loop d (drop m h) st), snd (consume_loop d (drop m h) st))"
proof (induction "length h - m" arbitrary: m h st)
  case 0
  then show ?case by simp
next
  case (Suc n)
  then have lt: "m < length h" by simp
  have up: "[m..<length h] = m # [Suc m..<length h]" using lt by (simp add: upt_conv_Cons)
  have dr: "drop m h = h ! m # drop (Suc m) h" using lt by (simp add: Cons_nth_drop_Suc)
  show ?case
  proof (cases "remainingToSell st \<le> 0")
    case True
    then show ?thesis unfolding up dr consume_loop_draw
      using id_take_nth_drop[OF lt] by (simp del: consume_loop.simps)
  next
    case False
    show ?thesis
    proof (cases "remainingQuantity (h ! m) > 0.0001")
      case True
      define b2 where "b2 = fst (draw d (h ! m) st)"
      define st1 where "st1 = snd (draw d (h ! m) st)"
      define h1 where "h1 = h[m := b2]"
      have len: "length h1 = length h" by (simp add: h1_def)
      have n: "n = length h1 - Suc m" using Suc.hyps(2) len by simp
      have le: "Suc m \<le> length h1" using lt len by simp
      have IH: "consume_loop_heap d [Suc m..<length h1] h1 st1 =
          (take (Suc m) h1 @ fst (consume_loop d (drop (Suc m) h1) st1),
           snd (consume_loop d (drop (Suc m) h1) st1))"
        using Suc.hyps(1)[OF n le] .
      have t: "take (Suc m) h1 = take m h @ [b2]"
        using lt by (simp add: h1_def take_Suc_conv_app_nth)
      have dd: "drop (Suc m) h1 = drop (Suc m) h" by (simp add: h1_def)
      have lhs: "consume_loop_heap d [m..<length h] h st =
          consume_loop_heap d [Suc m..<length h1] h1 st1"
        unfolding up using False True
        by (simp add: split_beta b2_def st1_def h1_def)
      show ?thesis unfolding lhs IH dr consume_loop_draw
        using False True t dd by (simp add: b2_def st1_def del: consume_loop.simps)
    next
      case closed: False
      have n: "n = length h - Suc m" using Suc.hyps(2) by simp
      have le: "Suc m \<le> length h" using lt by simp
      have IH: "consume_loop_heap d [Suc m..<length h] h st =
          (take (Suc m) h @ fst (consume_loop d (drop (Suc m) h) st),
           snd (consume_loop d (drop (Suc m) h) st))"
        using Suc.hyps(1)[OF n le] .
      have t: "take (Suc m) h = take m h @ [h ! m]"
        using lt by (simp add: take_Suc_conv_app_nth)
      have lhs: "consume_loop_heap d [m..<length h] h st =
          consume_loop_heap d [Suc m..<length h] h st"
        unfolding up using False closed by simp
      show ?thesis unfolding lhs IH dr consume_loop_draw
        using False closed t by (simp del: consume_loop.simps)
    qed
  qed
qed

lemma length_consume_loop: "length (fst (consume_loop d B st)) = length B"
  by (induction d B st rule: consume_loop.induct) (simp_all add: Let_def split_beta)

lemma process_sale_heap_refines:
  assumes "m \<le> length h"
  shows "process_sale_heap tx [m..<length h] h =
     ([m..<length h], take m h @ fst (process_sale tx (drop m h)), snd (process_sale tx (drop m h)))"
  unfolding process_sale_heap_def process_sale_def Let_def
    consume_loop_heap_refines[OF assms]
  by (simp add: split_beta)

lemma process_invoice_heap_refines:
  assumes "m \<le> length h"
  shows "process_invoice_heap tx [m..<length h] h =
     ([m..<m + length (fst (process_invoice tx (drop m h)))],
      take m h @ fst (process_invoice tx (drop m h)),
      snd (process_invoice tx (drop m h)))"
proof (cases "inv_type tx = PURCHASE")
  case True
  then show ?thesis using assms
    by (simp add: process_invoice_heap_def process_invoice_def process_purchase_heap_def
        process_purchase_def)
next
  case False
  have "length (fst (process_sale tx (drop m h))) = length h - m"
    by (simp add: process_sale_def Let_def split_beta length_consume_loop)
  then show ?thesis using False assms
    by (simp add: process_invoice_heap_def process_invoice_def process_sale_heap_refines)
qed

lemma replay_loop_heap_refines:
  "m \<le> length h \<Longrightarrow>
   replay_loop_heap txs [m..<length h] h acc =
     (fst (replay_loop txs (drop m h) acc),
      [m..<m + length (snd (replay_loop txs (drop m h) acc))],
      take m h @ snd (replay_loop txs (drop m h) acc))"
proof (induction txs arbitrary: h acc)
  case Nil
  then show ?case by simp
next
  case (Cons tx txs)
  define B' where "B' = fst (process_invoice tx (drop m h))"
  define tx' where "tx' = snd (process_invoice tx (drop m h))"
  define h' where "h' = take m h @ B'"
  have len: "length h' = m + length B'" using Cons.prems by (simp add: h'_def)
  have le: "m \<le> length h'" using len by simp
  have dr: "drop m h' = B'" using Cons.prems by (simp add: h'_def)
  have tk: "take m h' = take m h" using Cons.prems by (simp add: h'_def)
  have step: "process_invoice_heap tx [m..<length h] h = ([m..<length h'], h', tx')"
    using process_invoice_heap_refines[OF Cons.prems, of tx] Cons.prems
    by (simp add: B'_def tx'_def h'_def)
  have "replay_loop_heap (tx # txs) [m..<length h] h acc =
      replay_loop_heap txs [m..<length h'] h' (acc @ [tx'])"
    using step by simp
  also have "\<dots> = (fst (replay_loop txs (drop m h') (acc @ [tx'])),
      [m..<m + length (snd (replay_loop txs (drop m h') (acc @ [tx'])))],
      take m h' @ snd (replay_loop txs (drop m h') (acc @ [tx'])))"
    by (rule Cons.IH[OF le])
  also have "\<dots> = (fst (replay_loop (tx # txs) (drop m h) acc),
      [m..<m + length (snd (replay_loop (tx # txs) (drop m h) acc))],
      take m h @ snd (replay_loop (tx # txs) (drop m h) acc))"
    by (simp add: dr tk split_beta B'_def tx'_def)
  finally show ?case .
qed

lemma recalculateAllData_heap_refines:
  "recalculateAllData_heap h allInvoices =
     \<lparr>invoices_out = updatedInvoices (recalculateAllData allInvoices),
      inventory_refs = [length h..<length h + length (updatedInventory (recalculateAllData allInvoices))],
      heap_after = h @ updatedInventory (recalculateAllData allInvoices)\<rparr>"
proof -
  define sorted where "sorted = array_sort compareInvoices allInvoices"
  have "replay_loop_heap sorted [length h..<length h] h [] =
     (fst (replay_loop sorted (drop (length h) h) []),
      [length h..<length h + length (snd (replay_loop sorted (drop (length h) h) []))],
      take (length h) h @ snd (replay_loop sorted (drop (length h) h) []))"
    by (rule replay_loop_heap_refines) simp
  then have eq: "replay_loop_heap sorted [] h [] =
     (fst (replay_loop sorted [] []),
      [length h..<length h + length (snd (replay_loop sorted [] []))],
      h @ snd (replay_loop sorted [] []))"
    by simp
  have p: "recalculateAllData allInvoices =
     \<lparr>updatedInvoices = fst (replay_loop sorted [] []),
      updatedInventory = snd (replay_loop sorted [] [])\<rparr>"
    unfolding recalculateAllData_def Let_def sorted_def[symmetric] by (simp add: split_beta)
  show ?thesis
    unfolding recalculateAllData_heap_def Let_def sorted_def[symmetric] eq p by simp
qed

lemma deref_fresh: "deref (h @ U) [length h..<length h + length U] = U"
proof (rule nth_equalityI)
  show "length (deref (h @ U) [length h..<length h + length U]) = length U"
    by (simp add: deref_def)
next
  fix i assume "i < length (deref (h @ U) [length h..<length h + length U])"
  then show "deref (h @ U) [length h..<length h + length U] ! i = U ! i"
    by (simp add: deref_def nth_append)
qed

lemma deref_old:
  "\<forall>r\<in>set refs. r < length h \<Longrightarrow> deref (h @ U) refs = deref h refs"
  by (simp add: deref_def nth_append)

text \<open>
  C6. Whatever batch objects are alive before, a run of the replay returns the annotated
  transactions and batches that are a function of the collection alone (those of
  \<open>recalculateAllData\<close>); a second run on the same collection returns the same annotated
  transactions and batches with the same contents, and leaves the batch objects of the
  first run as they were.
\<close>

theorem replay_twice:
  "invoices_out (second_run h allInvoices) = invoices_out (recalculateAllData_heap h allInvoices) \<and>
   deref (heap_after (second_run h allInvoices)) (inventory_refs (second_run h allInvoices)) =
     deref (heap_after (recalculateAllData_heap h allInvoices))
           (inventory_refs (recalculateAllData_heap h allInvoices)) \<and>
   deref (heap_after (second_run h allInvoices))
         (inventory_refs (recalculateAllData_heap h allInvoices)) =
     deref (heap_after (recalculateAllData_heap h allInvoices))
           (inventory_refs (recalculateAllData_heap h allInvoices)) \<and>
   invoices_out (recalculateAllData_heap h allInvoices) =
     updatedInvoices (recalculateAllData allInvoices) \<and>
   deref (heap_after (recalculateAllData_heap h allInvoices))
         (inventory_refs (recalculateAllData_heap h allInvoices)) =
     updatedInventory (recalculateAllData allInvoices)"
proof -
  define U where "U = updatedInventory (recalculateAllData allInvoices)"
  have r1: "recalculateAllData_heap h allInvoices =
     \<lparr>invoices_out = updatedInvoices (recalculateAllData allInvoices),
      inventory_refs = [length h..<length h + length U], heap_after = h @ U\<rparr>"
    by (simp add: recalculateAllData_heap_refines U_def)
  have r2: "second_run h allInvoices =
     \<lparr>invoices_out = updatedInvoices (recalculateAllData allInvoices),
      inventory_refs = [length (h @ U)..<length (h @ U) + length U], heap_after = (h @ U) @ U\<rparr>"
    unfolding second_run_def r1 by (simp add: recalculateAllData_heap_refines U_def)
  have a: "deref ((h @ U) @ U) [length (h @ U)..<length (h @ U) + length U] = U"
    by (rule deref_fresh)
  have b: "deref (h @ U) [length h..<length h + length U] = U"
    by (rule deref_fresh)
  have c: "deref ((h @ U) @ U) [length h..<length h + length U] =
      deref (h @ U) [length h..<length h + length U]"
    by (rule deref_old) simp
  show ?thesis unfolding r1 r2 using a b c by (simp add: U_def)
qed

text \<open>
  On a heap that already holds three batch objects, the first run of the day-1/day-5 ledger
  allocates its batch at index 3 and the second run at index 4; the older objects keep
  their quantities.
\<close>

lemma second_run_sample:
  "inventory_refs (recalculateAllData_heap sample_inventory scenario_a_ledger) = [3] \<and>
   inventory_refs (second_run sample_inventory scenario_a_ledger) = [4] \<and>
   map remainingQuantity (heap_after (second_run sample_inventory scenario_a_ledger)) =
     [0, 4, 6, 60, 60]"
  by code_simp

end
